theory Spec2Isabelle
  imports Main "HOL-Library.Log_Nat"
begin

section \<open>The task board of \<open>src/App.js\<close>\<close>

text \<open>
  A shallow embedding of the task store (\<open>useTaskTracker\<close>), of its persistence, and
  of the pure parts of the \<open>App\<close> component: the column filter, the drop handler and
  the statistics.

  JavaScript strings are modelled by \<^typ>\<open>string\<close>; a string with characters outside
  ASCII is written as its UTF-8 bytes, which preserves \<open>===\<close> on strings. A property
  that an object does not have (it reads as \<open>undefined\<close>) is \<^const>\<open>None\<close>.
\<close>

subsection \<open>The \<open>Status\<close> table (lines 225 to 230)\<close>

definition Status_backlog :: string where
  "Status_backlog = ''Backlog''"

definition Status_inwork :: string where
  "Status_inwork =
     [CHR 0xD0, CHR 0x92, CHR 0x20, CHR 0xD1, CHR 0x80, CHR 0xD0, CHR 0xB0, CHR 0xD0,
      CHR 0xB1, CHR 0xD0, CHR 0xBE, CHR 0xD1, CHR 0x82, CHR 0xD0, CHR 0xB5]"

definition Status_done :: string where
  "Status_done =
     [CHR 0xD0, CHR 0x92, CHR 0xD1, CHR 0x8B, CHR 0xD0, CHR 0xBF, CHR 0xD0, CHR 0xBE,
      CHR 0xD0, CHR 0xBB, CHR 0xD0, CHR 0xBD, CHR 0xD0, CHR 0xB5, CHR 0xD0, CHR 0xBD,
      CHR 0xD0, CHR 0xBE]"

definition Status_empty :: string where
  "Status_empty =
     [CHR 0xD0, CHR 0x9F, CHR 0xD1, CHR 0x83, CHR 0xD1, CHR 0x81, CHR 0xD1, CHR 0x82,
      CHR 0xD0, CHR 0xBE]"

text \<open>The three statuses a column of the board stands for.\<close>

definition real_statuses :: "string set" where
  "real_statuses = {Status_backlog, Status_inwork, Status_done}"

subsection \<open>Tasks\<close>

text \<open>
  The objects held in \<open>tasks\<close>. The field \<open>id\<close> of the source is \<open>task_id\<close> here
  (\<open>id\<close> is the identity function of HOL). \<open>title\<close> and \<open>description\<close> are
  optional: the placeholder object of \<open>taskFilter\<close> has neither.
\<close>

record task =
  task_id :: string
  title :: "string option"
  description :: "string option"
  status :: string

subsection \<open>The store (lines 11 to 42)\<close>

text \<open>
  The data of the store is the one array \<open>tasks\<close>, initially empty; every operation
  reads it with \<open>get().tasks\<close> and replaces it with \<open>set({tasks: ...})\<close>, so each is a
  function from the old array to the new one.

  \<open>uuid()\<close> is a call into the \<open>uuid\<close> package, which draws a random version 4
  identifier. The value it returns at a call is the first argument of the operation
  that makes the call.
\<close>

definition initial_tasks :: "task list" where
  "initial_tasks = []"

definition create :: "string \<Rightarrow> string option \<Rightarrow> string option \<Rightarrow> task list \<Rightarrow> task list" where
  "create uuid ttl descr tasks =
     \<lparr>task_id = uuid, title = ttl, description = descr, status = Status_backlog\<rparr> # tasks"

definition update :: "string \<Rightarrow> string \<Rightarrow> task list \<Rightarrow> task list" where
  "update taskId listId tasks =
     map (\<lambda>task. if task_id task = taskId then task\<lparr>status := listId\<rparr> else task) tasks"

definition remove :: "string \<Rightarrow> task list \<Rightarrow> task list" where
  "remove taskId tasks = filter (\<lambda>task. taskId \<noteq> task_id task) tasks"

subsection \<open>Sequences of calls\<close>

datatype call =
    Create string "string option" "string option"
  | Update string string
  | Remove string

fun apply_call :: "call \<Rightarrow> task list \<Rightarrow> task list" where
  "apply_call (Create uuid ttl descr) tasks = create uuid ttl descr tasks"
| "apply_call (Update taskId listId) tasks = update taskId listId tasks"
| "apply_call (Remove taskId) tasks = remove taskId tasks"

fun run :: "call list \<Rightarrow> task list \<Rightarrow> task list" where
  "run [] tasks = tasks"
| "run (c # cs) tasks = run cs (apply_call c tasks)"

text \<open>No two tasks share an id, and every status is one of the three of the board.\<close>

definition unique_ids :: "task list \<Rightarrow> bool" where
  "unique_ids tasks = distinct (map task_id tasks)"

definition store_invariant :: "task list \<Rightarrow> bool" where
  "store_invariant tasks =
     (unique_ids tasks \<and> list_all (\<lambda>task. status task \<in> real_statuses) tasks)"

text \<open>
  The calls the user interface makes: \<open>update\<close> is reached from \<open>dropHandler(Status.backlog)\<close>,
  \<open>dropHandler(Status.inwork)\<close>, \<open>dropHandler(Status.done)\<close> and from the three status
  buttons of \<open>Card\<close>, always with one of the three statuses; and \<open>uuid()\<close> returns an
  identifier that no task of the array carries.
\<close>

fun board_call :: "task list \<Rightarrow> call \<Rightarrow> bool" where
  "board_call tasks (Create uuid ttl descr) = (uuid \<notin> set (map task_id tasks))"
| "board_call tasks (Update taskId listId) = (listId \<in> real_statuses)"
| "board_call tasks (Remove taskId) = True"

fun board_calls :: "task list \<Rightarrow> call list \<Rightarrow> bool" where
  "board_calls tasks [] = True"
| "board_calls tasks (c # cs) = (board_call tasks c \<and> board_calls (apply_call c tasks) cs)"

subsection \<open>The \<open>App\<close> component (lines 80 to 128)\<close>

text \<open>
  \<open>dropHandler(status)\<close> is the \<open>onDrop\<close> of a column; \<open>List\<close> calls it with the id of
  the dragged item and its own \<open>listId\<close>, which the handler ignores.
\<close>

definition dropHandler :: "string \<Rightarrow> string \<Rightarrow> string \<Rightarrow> task list \<Rightarrow> task list" where
  "dropHandler stat taskId listId tasks = update taskId stat tasks"

text \<open>
  \<open>taskFilter\<close> calls \<open>uuid()\<close> only when the filtered array is empty; \<open>uuid\<close> is the
  value that call returns.
\<close>

definition placeholder :: "string \<Rightarrow> task" where
  "placeholder uuid = \<lparr>task_id = uuid, title = None, description = None, status = Status_empty\<rparr>"

definition taskFilter :: "string \<Rightarrow> task list \<Rightarrow> string \<Rightarrow> task list" where
  "taskFilter uuid tasks stat =
     (let result = filter (\<lambda>task. status task = stat) tasks
      in if length result > 0 then result else [placeholder uuid])"

subsection \<open>JavaScript numbers\<close>

text \<open>
  The statistics divide and multiply numbers and print the result with \<open>toFixed(1)\<close>.
  A JavaScript number is a binary64 value of IEEE 754. The values the statistics can
  reach are \<open>NaN\<close>, \<open>+Infinity\<close> and the finite values that are not negative;
  \<open>Finite x\<close> is the finite value whose exact value is the rational \<open>x\<close>.
\<close>

datatype number = NaN | Infinity | Finite rat

text \<open>The exponent of a positive rational: \<open>2 powi (ilog2 x) \<le> x < 2 powi (ilog2 x + 1)\<close>.\<close>

definition ilog2 :: "rat \<Rightarrow> int" where
  "ilog2 x = (if 1 \<le> x then bitlen \<lfloor>x\<rfloor> - 1 else - bitlen (\<lceil>1 / x\<rceil> - 1))"

definition round_half_even :: "rat \<Rightarrow> int" where
  "round_half_even x =
     (let f = \<lfloor>x\<rfloor>; r = x - of_int f
      in if r < 1 / 2 then f
         else if 1 / 2 < r then f + 1
         else if even f then f else f + 1)"

text \<open>
  Rounding of an exact result that is not negative to binary64, to nearest with ties
  to even: 53 significant bits, the exponent not below \<open>- 1022\<close> (below it the values
  are subnormal and the spacing stays \<open>2 powi (- 1074)\<close>), and \<open>Infinity\<close> from
  \<open>2 powi 1024\<close> on.
\<close>

definition round_binary64 :: "rat \<Rightarrow> number" where
  "round_binary64 x =
     (if x = 0 then Finite 0
      else let e = max (ilog2 x) (- 1022);
               q = 2 powi (e - 52);
               r = of_int (round_half_even (x / q)) * q
           in if 2 powi 1024 \<le> r then Infinity else Finite r)"

text \<open>The operators \<open>/\<close> and \<open>*\<close> on numbers that are not negative.\<close>

fun divide_number :: "number \<Rightarrow> number \<Rightarrow> number" where
  "divide_number (Finite x) (Finite y) =
     (if y = 0 then (if x = 0 then NaN else Infinity) else round_binary64 (x / y))"
| "divide_number (Finite x) Infinity = Finite 0"
| "divide_number Infinity (Finite y) = Infinity"
| "divide_number _ _ = NaN"

fun times_number :: "number \<Rightarrow> number \<Rightarrow> number" where
  "times_number (Finite x) (Finite y) = round_binary64 (x * y)"
| "times_number Infinity (Finite y) = (if y = 0 then NaN else Infinity)"
| "times_number (Finite x) Infinity = (if x = 0 then NaN else Infinity)"
| "times_number Infinity Infinity = Infinity"
| "times_number _ _ = NaN"

definition isNaN :: "number \<Rightarrow> bool" where
  "isNaN x = (x = NaN)"

text \<open>The decimal digits of a natural number.\<close>

definition digit :: "nat \<Rightarrow> char" where
  "digit d = ''0123456789'' ! d"

fun decimal :: "nat \<Rightarrow> string" where
  "decimal n = (if n < 10 then [digit n] else decimal (n div 10) @ [digit (n mod 10)])"

declare decimal.simps [simp del]

text \<open>
  \<open>Number.prototype.toFixed\<close> with one fraction digit, as ECMAScript defines it: a
  number that is not finite prints as its name; otherwise \<open>n\<close> is the integer for which
  \<open>n / 10 - x\<close> is as close to zero as possible, the larger one if there are two, and
  the result is the digits of \<open>n\<close>, padded on the left with zeros to two digits, with a
  point before the last digit. From \<open>10 ^ 21\<close> on the result is the exponential
  notation of \<open>Number::toString\<close>, which is not modelled: the result is \<open>None\<close> there.
\<close>

definition toFixed_1 :: "number \<Rightarrow> string option" where
  "toFixed_1 x =
     (case x of
        NaN \<Rightarrow> Some ''NaN''
      | Infinity \<Rightarrow> Some ''Infinity''
      | Finite v \<Rightarrow>
          if 10 ^ 21 \<le> v then None
          else let n = nat \<lfloor>v * 10 + 1 / 2\<rfloor>;
                   m = decimal n;
                   k = length m;
                   m = (if k \<le> 1 then replicate (2 - k) CHR ''0'' @ m else m);
                   k = (if k \<le> 1 then 2 else k)
               in Some (take (k - 1) m @ ''.'' @ drop (k - 1) m))"

text \<open>The fourth component of the statistics is the number \<open>0\<close> or a string.\<close>

datatype jsvalue = Num number | Str string

subsection \<open>The statistics (lines 103 to 128)\<close>

text \<open>
  The loop of the statistics: three counters, and a \<open>switch\<close> on the status whose
  \<open>default\<close> branch does nothing. A counter is a natural number: an array has fewer
  than \<open>2 ^ 32\<close> elements, and \<open>+= 1\<close> is exact on numbers below \<open>2 ^ 53\<close>.
\<close>

fun count_loop :: "task list \<Rightarrow> nat \<times> nat \<times> nat \<Rightarrow> nat \<times> nat \<times> nat" where
  "count_loop [] counters = counters"
| "count_loop (task # rest) (backlogCounter, inworkCounter, doneCounter) =
     count_loop rest
       (if status task = Status_backlog then (backlogCounter + 1, inworkCounter, doneCounter)
        else if status task = Status_inwork then (backlogCounter, inworkCounter + 1, doneCounter)
        else if status task = Status_done then (backlogCounter, inworkCounter, doneCounter + 1)
        else (backlogCounter, inworkCounter, doneCounter))"

definition stats :: "task list \<Rightarrow> nat \<times> nat \<times> nat \<times> jsvalue option" where
  "stats tasks =
     (let (backlogCounter, inworkCounter, doneCounter) = count_loop tasks (0, 0, 0);
          percent = times_number
            (divide_number (Finite (of_nat doneCounter))
               (Finite (of_nat (backlogCounter + doneCounter + inworkCounter))))
            (Finite 100)
      in (backlogCounter, inworkCounter, doneCounter,
          if isNaN percent then Some (Num (Finite 0)) else map_option Str (toFixed_1 percent)))"

text \<open>The number of tasks of a list that have a given status.\<close>

definition count_status :: "string \<Rightarrow> task list \<Rightarrow> nat" where
  "count_status S tasks = length (filter (\<lambda>task. status task = S) tasks)"

text \<open>
  Following the words of the spec (section 4.2): "\<open>percent = done / (backlog+inwork+done)
  * 100\<close>, rounded to one decimal place; defined as \<open>0\<close> when the list is empty". The
  quotient and the product are exact here, and the rounding is the one \<open>toFixed\<close> applies
  to its argument (to the nearest tenth, a half upwards).
\<close>

definition spec_percent :: "nat \<Rightarrow> nat \<Rightarrow> nat \<Rightarrow> jsvalue option" where
  "spec_percent backlog inwork done =
     (if backlog + inwork + done = 0 then Some (Num (Finite 0))
      else map_option Str
             (toFixed_1 (Finite (of_nat done / of_nat (backlog + inwork + done) * 100))))"

text \<open>
  Sample lists for the statistics: \<open>k\<close> tasks of one status with ids that differ, and a
  list of 23 done tasks and 57 tasks in the backlog.
\<close>

fun sample_tasks :: "nat \<Rightarrow> string \<Rightarrow> task list" where
  "sample_tasks 0 S = []"
| "sample_tasks (Suc k) S =
     \<lparr>task_id = S @ decimal k, title = Some ''t'', description = None, status = S\<rparr>
       # sample_tasks k S"

definition tie_tasks :: "task list" where
  "tie_tasks = sample_tasks 23 Status_done @ sample_tasks 57 Status_backlog"

subsection \<open>Persistence (lines 37 to 40)\<close>

text \<open>
  The store is wrapped in \<open>persist\<close> with the options \<open>name: "task-tracker-store"\<close>
  and \<open>storage: createJSONStorage(() => localStorage)\<close>. What \<open>persist\<close> and
  \<open>createJSONStorage\<close> do with these options is code of the \<open>zustand\<close> package, and
  the conversion to and from text is \<open>JSON.stringify\<close> and \<open>JSON.parse\<close>; none of it
  is in \<open>src/App.js\<close>. The definitions of this subsection model that part.
\<close>

text \<open>
  Modelled from the spec: the values of the storage format, "a single JSON-serializable envelope"
  (section 6). The numbers are natural numbers, which is all the envelope holds.
\<close>

datatype json =
    JNull
  | JBool bool
  | JNumber nat
  | JString string
  | JArray "json list"
  | JObject "(string \<times> json) list"

text \<open>
  Modelled from the spec: a hexadecimal digit, in lower case as \<open>JSON.stringify\<close> writes it.
\<close>

definition hexdigit :: "nat \<Rightarrow> char" where
  "hexdigit n = ''0123456789abcdef'' ! n"

text \<open>
  Modelled from the spec: one character inside a JSON string, as \<open>JSON.stringify\<close> writes
  it: the quote and the backslash after a backslash; backspace, form feed, line feed,
  carriage return and tab as a backslash and the letter b, f, n, r or t; any other
  control character below \<open>0x20\<close> as a backslash, \<open>u00\<close> and two hexadecimal digits;
  every other character as it is.
\<close>

definition escape_char :: "char \<Rightarrow> string" where
  "escape_char c =
     (if c = CHR 0x22 then [CHR 0x5C, CHR 0x22]
      else if c = CHR 0x5C then [CHR 0x5C, CHR 0x5C]
      else if c = CHR 0x08 then [CHR 0x5C, CHR ''b'']
      else if c = CHR 0x0C then [CHR 0x5C, CHR ''f'']
      else if c = CHR 0x0A then [CHR 0x5C, CHR ''n'']
      else if c = CHR 0x0D then [CHR 0x5C, CHR ''r'']
      else if c = CHR 0x09 then [CHR 0x5C, CHR ''t'']
      else if (of_char c :: nat) < 32
        then [CHR 0x5C, CHR ''u'', CHR ''0'', CHR ''0'',
              hexdigit (of_char c div 16), hexdigit (of_char c mod 16)]
      else [c])"

text \<open>
  Modelled from the spec: a string of the list as JSON text, between two quotes.
\<close>

definition QuoteJSONString :: "string \<Rightarrow> string" where
  "QuoteJSONString s = CHR 0x22 # concat (map escape_char s) @ [CHR 0x22]"

text \<open>
  Modelled from the spec: the elements of an array and the members of an object are
  separated by commas, with no white space.
\<close>

fun join_comma :: "string list \<Rightarrow> string" where
  "join_comma [] = []"
| "join_comma [x] = x"
| "join_comma (x # y # ys) = x @ '','' @ join_comma (y # ys)"

text \<open>
  Modelled from the spec: serialisation of the storage format, "the entire current task
  list is serialized" (section 4.1), as \<open>JSON.stringify\<close> does it.
\<close>

fun stringify :: "json \<Rightarrow> string" where
  "stringify JNull = ''null''"
| "stringify (JBool b) = (if b then ''true'' else ''false'')"
| "stringify (JNumber n) = decimal n"
| "stringify (JString s) = QuoteJSONString s"
| "stringify (JArray xs) = ''['' @ join_comma (map stringify xs) @ '']''"
| "stringify (JObject kvs) =
     ''{'' @ join_comma (map (\<lambda>(k, v). QuoteJSONString k @ '':'' @ stringify v) kvs) @ ''}''"

text \<open>
  Modelled from the spec: the white space of JSON: space, tab, line feed, carriage return.
\<close>

definition is_ws :: "char \<Rightarrow> bool" where
  "is_ws c = (c = CHR 0x20 \<or> c = CHR 0x09 \<or> c = CHR 0x0A \<or> c = CHR 0x0D)"

text \<open>
  Modelled from the spec: white space before a token is skipped when the text is read.
\<close>

definition skip_ws :: "string \<Rightarrow> string" where
  "skip_ws = dropWhile is_ws"

text \<open>
  Modelled from the spec: the value of a hexadecimal digit, of either case; \<open>None\<close> for
  another character.
\<close>

definition hexval :: "char \<Rightarrow> nat option" where
  "hexval c =
     (let n = (of_char c :: nat)
      in if 48 \<le> n \<and> n \<le> 57 then Some (n - 48)
         else if 97 \<le> n \<and> n \<le> 102 then Some (n - 87)
         else if 65 \<le> n \<and> n \<le> 70 then Some (n - 55)
         else None)"

text \<open>
  Modelled from the spec: the character that a backslash and one character stand for in a
  JSON string; \<open>None\<close> when there is no such escape.
\<close>

definition unescape :: "char \<Rightarrow> char option" where
  "unescape e =
     (if e = CHR 0x22 then Some (CHR 0x22)
      else if e = CHR 0x5C then Some (CHR 0x5C)
      else if e = CHR ''/'' then Some (CHR ''/'')
      else if e = CHR ''b'' then Some (CHR 0x08)
      else if e = CHR ''f'' then Some (CHR 0x0C)
      else if e = CHR ''n'' then Some (CHR 0x0A)
      else if e = CHR ''r'' then Some (CHR 0x0D)
      else if e = CHR ''t'' then Some (CHR 0x09)
      else None)"

text \<open>
  Modelled from the spec: the number that four hexadecimal digits stand for.
\<close>

definition hex4 :: "char \<Rightarrow> char \<Rightarrow> char \<Rightarrow> char \<Rightarrow> nat option" where
  "hex4 a b c d =
     (case (hexval a, hexval b, hexval c, hexval d) of
        (Some w, Some x, Some y, Some z) \<Rightarrow> Some (((w * 16 + x) * 16 + y) * 16 + z)
      | _ \<Rightarrow> None)"

text \<open>
  Modelled from the spec: reading a JSON string after its opening quote: the string and
  the text after the closing quote. A control character below \<open>0x20\<close> is not allowed
  in a string. An escape with \<open>u\<close> of a character outside ASCII is outside this model
  (the result is \<open>None\<close>).
\<close>

fun string_body :: "string \<Rightarrow> (string \<times> string) option" where
  "string_body [] = None"
| "string_body (c # cs) =
     (if c = CHR 0x22 then Some ([], cs)
      else if c = CHR 0x5C then
        (case cs of
           [] \<Rightarrow> None
         | e # cs' \<Rightarrow>
             if e = CHR ''u'' then
               (case cs' of
                  h1 # h2 # h3 # h4 # cs'' \<Rightarrow>
                    (case hex4 h1 h2 h3 h4 of
                       None \<Rightarrow> None
                     | Some code \<Rightarrow>
                         if code < 128
                         then map_option (apfst ((#) (char_of code))) (string_body cs'')
                         else None)
                | _ \<Rightarrow> None)
             else
               (case unescape e of
                  None \<Rightarrow> None
                | Some ch \<Rightarrow> map_option (apfst ((#) ch)) (string_body cs')))
      else if (of_char c :: nat) < 32 then None
      else map_option (apfst ((#) c)) (string_body cs))"

text \<open>
  Modelled from the spec: the decimal digits.
\<close>

definition is_digit :: "char \<Rightarrow> bool" where
  "is_digit c = (48 \<le> (of_char c :: nat) \<and> (of_char c :: nat) \<le> 57)"

text \<open>
  Modelled from the spec: the number that a sequence of decimal digits stands for.
\<close>

definition digits_value :: "string \<Rightarrow> nat" where
  "digits_value ds = foldl (\<lambda>acc c. 10 * acc + (of_char c - 48)) 0 ds"

text \<open>
  Modelled from the spec: reading a JSON number: digits, with no zero before other digits. A
  number with a sign, a fraction or an exponent is outside this model (the result is
  \<open>None\<close>).
\<close>

definition number_p :: "string \<Rightarrow> (nat \<times> string) option" where
  "number_p inp =
     (let ds = takeWhile is_digit inp; r = dropWhile is_digit inp
      in if ds = [] \<or> (length ds > 1 \<and> hd ds = CHR ''0'') then None
         else case r of
                [] \<Rightarrow> Some (digits_value ds, r)
              | c # _ \<Rightarrow> if c = CHR ''.'' \<or> c = CHR ''e'' \<or> c = CHR ''E'' then None
                        else Some (digits_value ds, r))"

text \<open>
  Modelled from the spec: reading one of the words \<open>true\<close>, \<open>false\<close>, \<open>null\<close>.
\<close>

definition literal :: "string \<Rightarrow> string \<Rightarrow> string option" where
  "literal w inp = (if take (length w) inp = w then Some (drop (length w) inp) else None)"

text \<open>
  Modelled from the spec: reading a JSON value, the elements of an array after the first
  bracket, and the members of an object after the first brace. The first argument
  bounds the depth of the recursion.
\<close>

fun value_p :: "nat \<Rightarrow> string \<Rightarrow> (json \<times> string) option"
  and elements_p :: "nat \<Rightarrow> string \<Rightarrow> (json list \<times> string) option"
  and members_p :: "nat \<Rightarrow> string \<Rightarrow> ((string \<times> json) list \<times> string) option" where
  "value_p 0 inp = None"
| "value_p (Suc n) inp =
     (case skip_ws inp of
        [] \<Rightarrow> None
      | c # cs \<Rightarrow>
          if c = CHR 0x22 then map_option (apfst JString) (string_body cs)
          else if c = CHR ''['' then
            (case skip_ws cs of
               [] \<Rightarrow> None
             | d # ds \<Rightarrow> if d = CHR '']'' then Some (JArray [], ds)
                        else map_option (apfst JArray) (elements_p n cs))
          else if c = CHR ''{'' then
            (case skip_ws cs of
               [] \<Rightarrow> None
             | d # ds \<Rightarrow> if d = CHR ''}'' then Some (JObject [], ds)
                        else map_option (apfst JObject) (members_p n cs))
          else if c = CHR ''t'' then map_option (Pair (JBool True)) (literal ''true'' (c # cs))
          else if c = CHR ''f'' then map_option (Pair (JBool False)) (literal ''false'' (c # cs))
          else if c = CHR ''n'' then map_option (Pair JNull) (literal ''null'' (c # cs))
          else map_option (apfst JNumber) (number_p (c # cs)))"
| "elements_p 0 inp = None"
| "elements_p (Suc n) inp =
     (case value_p n inp of
        None \<Rightarrow> None
      | Some (v, r) \<Rightarrow>
          (case skip_ws r of
             [] \<Rightarrow> None
           | d # ds \<Rightarrow> if d = CHR '','' then map_option (apfst ((#) v)) (elements_p n ds)
                      else if d = CHR '']'' then Some ([v], ds)
                      else None))"
| "members_p 0 inp = None"
| "members_p (Suc n) inp =
     (case skip_ws inp of
        [] \<Rightarrow> None
      | c # cs \<Rightarrow>
          if c \<noteq> CHR 0x22 then None
          else (case string_body cs of
                  None \<Rightarrow> None
                | Some (k, r) \<Rightarrow>
                    (case skip_ws r of
                       [] \<Rightarrow> None
                     | d # ds \<Rightarrow>
                         if d \<noteq> CHR '':'' then None
                         else (case value_p n ds of
                                 None \<Rightarrow> None
                               | Some (v, r') \<Rightarrow>
                                   (case skip_ws r' of
                                      [] \<Rightarrow> None
                                    | d' # ds' \<Rightarrow>
                                        if d' = CHR '','' then
                                          map_option (apfst ((#) (k, v))) (members_p n ds')
                                        else if d' = CHR ''}'' then Some ([(k, v)], ds')
                                        else None)))))"

text \<open>
  Modelled from the spec: deserialisation of the storage format, "read and deserialize that
  key" (section 4.1), as \<open>JSON.parse\<close> does it: one value, and nothing but white space
  after it. The depth it allows is more than the length of the text, and every call
  of \<open>value_p\<close> consumes a character.
\<close>

definition parse :: "string \<Rightarrow> json option" where
  "parse text =
     (case value_p (Suc (length text)) text of
        None \<Rightarrow> None
      | Some (v, r) \<Rightarrow> if skip_ws r = [] then Some v else None)"

text \<open>
  Modelled from the spec: the "fixed string key" of the storage (section 6); its value
  is the \<open>name\<close> option at line 38.
\<close>

definition storage_name :: string where
  "storage_name = ''task-tracker-store''"

text \<open>
  Modelled from the spec: a property of an object with a string value; a property whose
  value is \<open>undefined\<close> is not written.
\<close>

definition string_member :: "string \<Rightarrow> string option \<Rightarrow> (string \<times> json) list" where
  "string_member k v = (case v of None \<Rightarrow> [] | Some s \<Rightarrow> [(k, JString s)])"

text \<open>
  Modelled from the spec: a task as one of the "\<open>{id, title, description, status}\<close>
  objects" of the format (section 6).
\<close>

definition task_json :: "task \<Rightarrow> json" where
  "task_json task =
     JObject (string_member ''id'' (Some (task_id task)) @ string_member ''title'' (title task)
       @ string_member ''description'' (description task)
       @ string_member ''status'' (Some (status task)))"

text \<open>
  Modelled from the spec: the envelope, "a version/metadata wrapper (from the persistence
  collaborator) plus the task list as an array" (section 6). The three functions of
  the store are not written.
\<close>

definition state_json :: "task list \<Rightarrow> json" where
  "state_json tasks =
     JObject [(''state'', JObject [(''tasks'', JArray (map task_json tasks))]),
              (''version'', JNumber 0)]"

text \<open>
  Modelled from the spec: the write on every mutation, "the entire current task list is
  serialized and written to a durable key-value storage collaborator under a fixed
  key" (section 4.1). The storage is a map from keys to texts.
\<close>

definition setItem :: "(string \<rightharpoonup> string) \<Rightarrow> task list \<Rightarrow> (string \<rightharpoonup> string)" where
  "setItem storage tasks = storage(storage_name \<mapsto> stringify (state_json tasks))"

text \<open>
  Modelled from the spec: reading a property of an object that was read from JSON text: the
  last member with that key.
\<close>

fun property :: "json \<Rightarrow> string \<Rightarrow> json option" where
  "property (JObject kvs) k = map_of (rev kvs) k"
| "property _ k = None"

text \<open>
  Modelled from the spec: a property that is a string or is missing; \<open>None\<close> when it
  is anything else.
\<close>

definition string_property :: "json \<Rightarrow> string \<Rightarrow> string option option" where
  "string_property obj k =
     (case property obj k of
        None \<Rightarrow> Some None
      | Some (JString s) \<Rightarrow> Some (Some s)
      | Some _ \<Rightarrow> None)"

text \<open>
  Modelled from the spec: an object of the format read back as a task; \<open>None\<close> when
  the id or the status is not a string, or the title or the description is neither a
  string nor missing.
\<close>

definition task_of_json :: "json \<Rightarrow> task option" where
  "task_of_json obj =
     (case (string_property obj ''id'', string_property obj ''title'',
            string_property obj ''description'', string_property obj ''status'') of
        (Some (Some i), Some t, Some d, Some (Some s)) \<Rightarrow>
          Some \<lparr>task_id = i, title = t, description = d, status = s\<rparr>
      | _ \<Rightarrow> None)"

text \<open>
  Modelled from the spec: the array of the format read back as a task list.
\<close>

fun tasks_of_json :: "json list \<Rightarrow> task list option" where
  "tasks_of_json [] = Some []"
| "tasks_of_json (x # xs) =
     (case task_of_json x of
        None \<Rightarrow> None
      | Some t \<Rightarrow> map_option ((#) t) (tasks_of_json xs))"

text \<open>
  Modelled from the spec: the task list inside an envelope of version 0.
\<close>

definition state_of_json :: "json \<Rightarrow> task list option" where
  "state_of_json envelope =
     (if property envelope ''version'' \<noteq> Some (JNumber 0) then None
      else case property envelope ''state'' of
             None \<Rightarrow> None
           | Some state \<Rightarrow>
               (case property state ''tasks'' of
                  Some (JArray xs) \<Rightarrow> tasks_of_json xs
                | _ \<Rightarrow> None))"

text \<open>
  Modelled from the spec: the read on start, "the store attempts to read and deserialize
  that key; if absent or unreadable, it initializes with an empty list" (section 4.1).
\<close>

definition rehydrate :: "(string \<rightharpoonup> string) \<Rightarrow> task list" where
  "rehydrate storage =
     (case storage storage_name of
        None \<Rightarrow> initial_tasks
      | Some text \<Rightarrow>
          (case parse text of
             None \<Rightarrow> initial_tasks
           | Some envelope \<Rightarrow>
               (case state_of_json envelope of
                  None \<Rightarrow> initial_tasks
                | Some tasks \<Rightarrow> tasks)))"

subsection \<open>Notions used in the proofs about the parser\<close>

text \<open>
  What may follow a number, what may follow a value inside an array or an object, and
  what a value may start with; the text of one member of an object; and the property
  that the parser, given enough depth, reads a printed value back and stops after it.
\<close>

definition number_end :: "string \<Rightarrow> bool" where
  "number_end rest =
     (case rest of [] \<Rightarrow> True
      | c # _ \<Rightarrow> \<not> is_digit c \<and> c \<noteq> CHR ''.'' \<and> c \<noteq> CHR ''e'' \<and> c \<noteq> CHR ''E'')"

definition delimited :: "string \<Rightarrow> bool" where
  "delimited rest =
     (case rest of [] \<Rightarrow> True | c # _ \<Rightarrow> c = CHR '','' \<or> c = CHR '']'' \<or> c = CHR ''}'')"

definition value_start :: "char \<Rightarrow> bool" where
  "value_start c = (\<not> is_ws c \<and> c \<noteq> CHR '']'' \<and> c \<noteq> CHR ''}'')"

definition member_text :: "string \<times> json \<Rightarrow> string" where
  "member_text = (\<lambda>(k, v). QuoteJSONString k @ '':'' @ stringify v)"

definition parses :: "json \<Rightarrow> bool" where
  "parses j = (\<forall>n rest. delimited rest \<longrightarrow> length (stringify j) < n \<longrightarrow>
     value_p n (stringify j @ rest) = Some (j, rest))"

section \<open>Properties of the store\<close>

lemma Status_distinct:
  "Status_backlog \<noteq> Status_inwork" "Status_backlog \<noteq> Status_done"
  "Status_backlog \<noteq> Status_empty" "Status_inwork \<noteq> Status_done"
  "Status_inwork \<noteq> Status_empty" "Status_done \<noteq> Status_empty"
  by (simp_all add: Status_backlog_def Status_inwork_def Status_done_def Status_empty_def)

lemma Status_empty_not_real: "Status_empty \<notin> real_statuses"
  using Status_distinct by (auto simp: real_statuses_def)

subsection \<open>Helper lemmas on \<open>update\<close> and \<open>remove\<close>\<close>

lemma task_id_update: "map task_id (update X S tasks) = map task_id tasks"
  by (induction tasks) (simp_all add: update_def)

lemma update_absent: "X \<notin> set (map task_id tasks) \<Longrightarrow> update X S tasks = tasks"
proof (induction tasks)
  case Nil
  show ?case by (simp add: update_def)
next
  case (Cons t ts)
  then have "task_id t \<noteq> X" "update X S ts = ts" by auto
  then show ?case by (simp add: update_def)
qed

lemma in_update_cases:
  assumes "t \<in> set (update X S tasks)"
  obtains u where "u \<in> set tasks" "task_id u = X" "t = u\<lparr>status := S\<rparr>"
  | "t \<in> set tasks" "task_id t \<noteq> X"
proof -
  from assms obtain u
    where u: "u \<in> set tasks" "t = (if task_id u = X then u\<lparr>status := S\<rparr> else u)"
    unfolding update_def set_map by (rule imageE)
  show thesis
  proof (cases "task_id u = X")
    case True
    with u have "t = u\<lparr>status := S\<rparr>" by simp
    with u(1) True show thesis by (rule that(1))
  next
    case False
    with u have "t = u" by simp
    with u(1) False show thesis by (intro that(2)) simp_all
  qed
qed

lemma update_sets_status:
  assumes "t \<in> set (update X S tasks)" and "task_id t = X"
  shows "status t = S"
  using assms(1)
proof (cases rule: in_update_cases)
  case (1 u)
  then show ?thesis by simp
next
  case 2
  with assms(2) show ?thesis by simp
qed

lemma in_update:
  assumes "t \<in> set tasks" "task_id t = X"
  shows "t\<lparr>status := S\<rparr> \<in> set (update X S tasks)"
  using assms by (induction tasks) (auto simp: update_def)

lemma remove_absent: "X \<notin> set (map task_id tasks) \<Longrightarrow> remove X tasks = tasks"
  by (induction tasks) (auto simp: remove_def)

lemma remove_append: "remove X (xs @ ys) = remove X xs @ remove X ys"
  by (simp add: remove_def)

lemma remove_not_in: "X \<notin> set (map task_id (remove X tasks))"
proof
  assume "X \<in> set (map task_id (remove X tasks))"
  then obtain t where "t \<in> set (remove X tasks)" "task_id t = X"
    unfolding set_map by (rule imageE) simp
  then show False by (simp add: remove_def)
qed

lemma remove_present:
  assumes u: "unique_ids tasks" and x: "X \<in> set (map task_id tasks)"
  shows "\<exists>pre t post. tasks = pre @ t # post \<and> task_id t = X \<and> remove X tasks = pre @ post"
proof -
  from x obtain t where t: "t \<in> set tasks" "task_id t = X" by auto
  from t(1) obtain pre post where sp: "tasks = pre @ t # post"
    using split_list by fastforce
  from u have "distinct (map task_id pre @ X # map task_id post)"
    by (simp add: unique_ids_def sp t(2))
  then have "X \<notin> set (map task_id pre)" "X \<notin> set (map task_id post)"
    by simp_all
  then have "remove X pre = pre" "remove X post = post"
    by (simp_all add: remove_absent)
  moreover have "remove X [t] = []"
    by (simp add: remove_def t(2))
  ultimately have "remove X tasks = pre @ post"
    using remove_append [of X pre "[t] @ post"] remove_append [of X "[t]" post]
    by (simp add: sp)
  with sp t(2) show ?thesis by blast
qed

subsection \<open>The invariant along a run\<close>

lemma apply_call_invariant:
  assumes inv: "store_invariant tasks" and ok: "board_call tasks c"
  shows "store_invariant (apply_call c tasks)"
proof (cases c)
  case (Create u t d)
  with inv ok show ?thesis
    by (auto simp: store_invariant_def unique_ids_def create_def real_statuses_def)
next
  case (Update x s)
  have "\<forall>t\<in>set (update x s tasks). status t \<in> real_statuses"
  proof
    fix t assume "t \<in> set (update x s tasks)"
    then show "status t \<in> real_statuses"
    proof (cases rule: in_update_cases)
      case (1 u)
      with ok Update show ?thesis by simp
    next
      case 2
      with inv show ?thesis by (simp add: store_invariant_def list_all_iff)
    qed
  qed
  moreover have "unique_ids (update x s tasks)"
    using inv by (simp add: store_invariant_def unique_ids_def task_id_update)
  ultimately show ?thesis using Update
    by (simp add: store_invariant_def list_all_iff)
next
  case (Remove x)
  with inv show ?thesis
    by (simp add: store_invariant_def unique_ids_def remove_def list_all_iff distinct_map_filter)
qed

lemma run_preserves_invariant:
  "store_invariant tasks \<Longrightarrow> board_calls tasks cs \<Longrightarrow> store_invariant (run cs tasks)"
proof (induction cs arbitrary: tasks)
  case Nil
  then show ?case by simp
next
  case (Cons c cs)
  from Cons.prems have "store_invariant (apply_call c tasks)"
    by (simp add: apply_call_invariant)
  with Cons show ?case by simp
qed

lemma initial_invariant: "store_invariant initial_tasks"
  by (simp add: store_invariant_def unique_ids_def initial_tasks_def)

subsection \<open>Helper lemmas on the column filter\<close>

lemma placeholder_counted: "count_loop (placeholder u # rest) acc = count_loop rest acc"
  using Status_distinct by (cases acc) (simp add: placeholder_def)

lemma taskFilter_some:
  assumes "\<exists>t\<in>set tasks. status t = S"
  shows "taskFilter u tasks S = filter (\<lambda>task. status task = S) tasks"
proof -
  from assms have "filter (\<lambda>task. status task = S) tasks \<noteq> []"
    by (simp add: filter_empty_conv)
  then show ?thesis by (simp add: taskFilter_def)
qed

lemma taskFilter_none:
  assumes "\<not> (\<exists>t\<in>set tasks. status t = S)"
  shows "taskFilter u tasks S = [placeholder u]"
proof -
  from assms have "filter (\<lambda>task. status task = S) tasks = []"
    by (simp add: filter_empty_conv)
  then show ?thesis by (simp add: taskFilter_def)
qed

lemma placeholder_not_stored:
  assumes "store_invariant tasks"
  shows "placeholder u \<notin> set tasks"
proof
  assume "placeholder u \<in> set tasks"
  with assms have "status (placeholder u) \<in> real_statuses"
    by (simp add: store_invariant_def list_all_iff)
  then show False using Status_empty_not_real by (simp add: placeholder_def)
qed

section \<open>The claims about the store\<close>

text \<open>
  Claim C1, as the code has it. Along every sequence of \<open>create\<close>, \<open>update\<close> and
  \<open>remove\<close> calls that starts from the empty list, in which every \<open>update\<close> is given one
  of the statuses \<open>Backlog\<close>, in work, done (as every call site of the board does) and
  every \<open>uuid()\<close> returns an id that no task of the list carries, the list has no
  duplicate ids and every status is one of those three.
\<close>

theorem run_board_calls_invariant:
  "board_calls initial_tasks cs \<Longrightarrow> store_invariant (run cs initial_tasks)"
  using initial_invariant by (rule run_preserves_invariant)

theorem run_board_calls_invariant_witness:
  "board_calls initial_tasks
     [Create ''a'' (Some ''T'') (Some ''D''), Create ''b'' (Some ''U'') None,
      Update ''a'' Status_done, Remove ''b'']
   \<and> store_invariant (run
     [Create ''a'' (Some ''T'') (Some ''D''), Create ''b'' (Some ''U'') None,
      Update ''a'' Status_done, Remove ''b''] initial_tasks)
   \<and> run
     [Create ''a'' (Some ''T'') (Some ''D''), Create ''b'' (Some ''U'') None,
      Update ''a'' Status_done, Remove ''b''] initial_tasks
     = [\<lparr>task_id = ''a'', title = Some ''T'', description = Some ''D'', status = Status_done\<rparr>]"
  using run_board_calls_invariant
    [of "[Create ''a'' (Some ''T'') (Some ''D''), Create ''b'' (Some ''U'') None,
          Update ''a'' Status_done, Remove ''b'']"]
  by (simp add: initial_tasks_def create_def update_def remove_def real_statuses_def)

text \<open>
  Claim C1 as it is stated, for every sequence of calls, fails: the store takes any
  status, so \<open>create\<close> followed by \<open>update\<close> of the new task to \<open>Status.empty\<close> leaves a
  task whose status is none of the three.
\<close>

theorem update_empty_breaks_invariant:
  "\<not> store_invariant
       (run [Create ''a'' (Some ''T'') (Some ''D''), Update ''a'' Status_empty] initial_tasks)"
  using Status_empty_not_real
  by (simp add: store_invariant_def initial_tasks_def create_def update_def)




text \<open>
  Claim C3. On a list that has a task with id \<open>X\<close>, \<open>update X S\<close> keeps the length of
  the list and, position by position, the id, the title and the description of every
  task; the status at a position becomes \<open>S\<close> where the id is \<open>X\<close>, and a task with
  another id is the task it was.
\<close>

theorem update_changes_only_status:
  assumes "X \<in> set (map task_id tasks)"
  shows "length (update X S tasks) = length tasks
    \<and> (\<forall>i<length tasks.
          task_id (update X S tasks ! i) = task_id (tasks ! i)
        \<and> title (update X S tasks ! i) = title (tasks ! i)
        \<and> description (update X S tasks ! i) = description (tasks ! i)
        \<and> status (update X S tasks ! i)
            = (if task_id (tasks ! i) = X then S else status (tasks ! i))
        \<and> (task_id (tasks ! i) \<noteq> X \<longrightarrow> update X S tasks ! i = tasks ! i))"
  by (simp add: update_def)

theorem update_changes_only_status_witness:
  "''a'' \<in> set (map task_id
      [\<lparr>task_id = ''b'', title = Some ''U'', description = Some ''D'', status = Status_backlog\<rparr>,
       \<lparr>task_id = ''a'', title = Some ''T'', description = None, status = Status_backlog\<rparr>])
   \<and> update ''a'' Status_done
      [\<lparr>task_id = ''b'', title = Some ''U'', description = Some ''D'', status = Status_backlog\<rparr>,
       \<lparr>task_id = ''a'', title = Some ''T'', description = None, status = Status_backlog\<rparr>]
     = [\<lparr>task_id = ''b'', title = Some ''U'', description = Some ''D'', status = Status_backlog\<rparr>,
        \<lparr>task_id = ''a'', title = Some ''T'', description = None, status = Status_done\<rparr>]"
  using update_changes_only_status [of "''a''"
    "[\<lparr>task_id = ''b'', title = Some ''U'', description = Some ''D'', status = Status_backlog\<rparr>,
      \<lparr>task_id = ''a'', title = Some ''T'', description = None, status = Status_backlog\<rparr>]"
    Status_done]
  by (simp add: update_def)

text \<open>
  Claim C4. When no task of the list has the id \<open>X\<close>, \<open>update X S\<close> returns the list as
  it was. The operation has no failing branch: it is a total function of the list.
\<close>

theorem update_missing_id_noop:
  "X \<notin> set (map task_id tasks) \<Longrightarrow> update X S tasks = tasks"
  by (rule update_absent)

theorem update_missing_id_noop_witness:
  "''c'' \<notin> set (map task_id
      [\<lparr>task_id = ''a'', title = Some ''T'', description = None, status = Status_backlog\<rparr>])
   \<and> update ''c'' Status_done
      [\<lparr>task_id = ''a'', title = Some ''T'', description = None, status = Status_backlog\<rparr>]
     = [\<lparr>task_id = ''a'', title = Some ''T'', description = None, status = Status_backlog\<rparr>]"
  using update_missing_id_noop [of "''c''"
    "[\<lparr>task_id = ''a'', title = Some ''T'', description = None, status = Status_backlog\<rparr>]"
    Status_done]
  by simp

text \<open>
  Claim C5. On a list without duplicate ids that has a task with id \<open>X\<close>, \<open>remove X\<close>
  returns a list shorter by one, without the id \<open>X\<close>: the tasks before that task
  followed by the tasks after it. On a list that has no task with id \<open>X\<close> it returns
  the list as it was.
\<close>

theorem remove_spec:
  "(unique_ids tasks \<and> X \<in> set (map task_id tasks) \<longrightarrow>
      Suc (length (remove X tasks)) = length tasks
    \<and> X \<notin> set (map task_id (remove X tasks))
    \<and> (\<exists>pre t post. tasks = pre @ t # post \<and> task_id t = X \<and> remove X tasks = pre @ post))
 \<and> (X \<notin> set (map task_id tasks) \<longrightarrow> remove X tasks = tasks)"
proof (intro conjI impI)
  assume "unique_ids tasks \<and> X \<in> set (map task_id tasks)"
  then obtain pre t post
    where d: "tasks = pre @ t # post" "task_id t = X" "remove X tasks = pre @ post"
    using remove_present by blast
  then show "Suc (length (remove X tasks)) = length tasks" by simp
  show "X \<notin> set (map task_id (remove X tasks))" by (rule remove_not_in)
  from d show "\<exists>pre t post. tasks = pre @ t # post \<and> task_id t = X \<and> remove X tasks = pre @ post"
    by blast
next
  assume "X \<notin> set (map task_id tasks)"
  then show "remove X tasks = tasks" by (rule remove_absent)
qed

theorem remove_spec_witness:
  "(unique_ids
      [\<lparr>task_id = ''a'', title = Some ''T'', description = None, status = Status_done\<rparr>,
       \<lparr>task_id = ''b'', title = Some ''U'', description = Some ''D'', status = Status_backlog\<rparr>]
   \<and> ''b'' \<in> set (map task_id
      [\<lparr>task_id = ''a'', title = Some ''T'', description = None, status = Status_done\<rparr>,
       \<lparr>task_id = ''b'', title = Some ''U'', description = Some ''D'', status = Status_backlog\<rparr>])
   \<and> remove ''b''
      [\<lparr>task_id = ''a'', title = Some ''T'', description = None, status = Status_done\<rparr>,
       \<lparr>task_id = ''b'', title = Some ''U'', description = Some ''D'', status = Status_backlog\<rparr>]
     = [\<lparr>task_id = ''a'', title = Some ''T'', description = None, status = Status_done\<rparr>])
  \<and> (''c'' \<notin> set (map task_id
      [\<lparr>task_id = ''a'', title = Some ''T'', description = None, status = Status_done\<rparr>])
   \<and> remove ''c''
      [\<lparr>task_id = ''a'', title = Some ''T'', description = None, status = Status_done\<rparr>]
     = [\<lparr>task_id = ''a'', title = Some ''T'', description = None, status = Status_done\<rparr>])"
  using remove_spec [of
      "[\<lparr>task_id = ''a'', title = Some ''T'', description = None, status = Status_done\<rparr>,
        \<lparr>task_id = ''b'', title = Some ''U'', description = Some ''D'', status = Status_backlog\<rparr>]"
      "''b''"]
    remove_spec [of
      "[\<lparr>task_id = ''a'', title = Some ''T'', description = None, status = Status_done\<rparr>]"
      "''c''"]
  by (simp add: unique_ids_def remove_def)

text \<open>
  Claim C9. The store does not check the status it is given: on a list that has a
  task with id \<open>X\<close>, after \<open>update X S\<close> the list has a task with id \<open>X\<close>, and every task
  with id \<open>X\<close> has the status \<open>S\<close>, for every string \<open>S\<close>; when \<open>S\<close> is none of the three
  statuses of the board (\<open>Status.empty\<close>, say), the stored list breaks the invariant.
\<close>

theorem update_status_unvalidated:
  assumes "X \<in> set (map task_id tasks)"
  shows "(\<exists>t\<in>set (update X S tasks). task_id t = X)
    \<and> (\<forall>t\<in>set (update X S tasks). task_id t = X \<longrightarrow> status t = S)
    \<and> (S \<notin> real_statuses \<longrightarrow> \<not> store_invariant (update X S tasks))"
proof (intro conjI ballI impI)
  from assms obtain t where t: "t \<in> set tasks" "task_id t = X"
    unfolding set_map by (rule imageE) simp
  then have in_upd: "t\<lparr>status := S\<rparr> \<in> set (update X S tasks)"
    by (rule in_update)
  moreover have "task_id (t\<lparr>status := S\<rparr>) = X"
    using t(2) by simp
  ultimately show "\<exists>t\<in>set (update X S tasks). task_id t = X"
    by (rule bexI [rotated])
  assume "S \<notin> real_statuses"
  then have bad: "status (t\<lparr>status := S\<rparr>) \<notin> real_statuses" by simp
  have "\<not> list_all (\<lambda>task. status task \<in> real_statuses) (update X S tasks)"
  proof
    assume "list_all (\<lambda>task. status task \<in> real_statuses) (update X S tasks)"
    then have "\<forall>task\<in>set (update X S tasks). status task \<in> real_statuses"
      by (simp only: list_all_iff)
    from this in_upd have "status (t\<lparr>status := S\<rparr>) \<in> real_statuses" by (rule bspec)
    with bad show False by (rule notE)
  qed
  then show "\<not> store_invariant (update X S tasks)"
    by (simp add: store_invariant_def)
next
  fix t assume "t \<in> set (update X S tasks)" "task_id t = X"
  then show "status t = S" by (rule update_sets_status)
qed

theorem update_status_unvalidated_witness:
  "''a'' \<in> set (map task_id
      [\<lparr>task_id = ''a'', title = Some ''T'', description = None, status = Status_backlog\<rparr>])
   \<and> update ''a'' Status_empty
      [\<lparr>task_id = ''a'', title = Some ''T'', description = None, status = Status_backlog\<rparr>]
     = [\<lparr>task_id = ''a'', title = Some ''T'', description = None, status = Status_empty\<rparr>]
   \<and> Status_empty \<notin> real_statuses
   \<and> \<not> store_invariant (update ''a'' Status_empty
      [\<lparr>task_id = ''a'', title = Some ''T'', description = None, status = Status_backlog\<rparr>])"
  using update_status_unvalidated [of "''a''"
      "[\<lparr>task_id = ''a'', title = Some ''T'', description = None, status = Status_backlog\<rparr>]"
      Status_empty]
    Status_empty_not_real
  by (simp add: update_def)

section \<open>The claims about the column filter\<close>

text \<open>
  Claim C7. When the list has a task with status \<open>S\<close>, \<open>taskFilter\<close> returns the tasks
  with status \<open>S\<close>, in the order of the list; otherwise it returns one placeholder, whose
  status is \<open>Status.empty\<close>. The placeholder is in no list that the store reaches by the
  calls of the board (the list is what the store persists), and the statistics of a
  list are what they are without it: the loop steps over it and changes no counter.
\<close>

theorem taskFilter_spec:
  "((\<exists>t\<in>set tasks. status t = S) \<longrightarrow>
       taskFilter u tasks S = filter (\<lambda>task. status task = S) tasks)
 \<and> (\<not> (\<exists>t\<in>set tasks. status t = S) \<longrightarrow>
       taskFilter u tasks S = [placeholder u])
 \<and> status (placeholder u) = Status_empty
 \<and> (board_calls initial_tasks cs \<longrightarrow> placeholder u \<notin> set (run cs initial_tasks))
 \<and> stats (placeholder u # tasks) = stats tasks"
proof (intro conjI impI)
  assume "\<exists>t\<in>set tasks. status t = S"
  then show "taskFilter u tasks S = filter (\<lambda>task. status task = S) tasks"
    by (rule taskFilter_some)
next
  assume "\<not> (\<exists>t\<in>set tasks. status t = S)"
  then show "taskFilter u tasks S = [placeholder u]"
    by (rule taskFilter_none)
next
  show "status (placeholder u) = Status_empty"
    by (simp add: placeholder_def)
next
  assume "board_calls initial_tasks cs"
  with initial_invariant have "store_invariant (run cs initial_tasks)"
    by (rule run_preserves_invariant)
  then show "placeholder u \<notin> set (run cs initial_tasks)"
    by (rule placeholder_not_stored)
next
  show "stats (placeholder u # tasks) = stats tasks"
    by (simp only: stats_def placeholder_counted)
qed

theorem taskFilter_spec_witness:
  "(\<exists>t\<in>set
      [\<lparr>task_id = ''b'', title = Some ''U'', description = Some ''D'', status = Status_backlog\<rparr>,
       \<lparr>task_id = ''a'', title = Some ''T'', description = None, status = Status_inwork\<rparr>].
      status t = Status_inwork)
   \<and> taskFilter ''p''
      [\<lparr>task_id = ''b'', title = Some ''U'', description = Some ''D'', status = Status_backlog\<rparr>,
       \<lparr>task_id = ''a'', title = Some ''T'', description = None, status = Status_inwork\<rparr>]
      Status_inwork
     = [\<lparr>task_id = ''a'', title = Some ''T'', description = None, status = Status_inwork\<rparr>]
   \<and> \<not> (\<exists>t\<in>set
      [\<lparr>task_id = ''b'', title = Some ''U'', description = Some ''D'', status = Status_backlog\<rparr>].
      status t = Status_done)
   \<and> taskFilter ''p''
      [\<lparr>task_id = ''b'', title = Some ''U'', description = Some ''D'', status = Status_backlog\<rparr>]
      Status_done
     = [\<lparr>task_id = ''p'', title = None, description = None, status = Status_empty\<rparr>]
   \<and> board_calls initial_tasks [Create ''b'' (Some ''U'') (Some ''D''), Update ''p'' Status_done]
   \<and> placeholder ''p'' \<notin> set
      (run [Create ''b'' (Some ''U'') (Some ''D''), Update ''p'' Status_done] initial_tasks)"
  using taskFilter_spec [of
      "[\<lparr>task_id = ''b'', title = Some ''U'', description = Some ''D'', status = Status_backlog\<rparr>,
        \<lparr>task_id = ''a'', title = Some ''T'', description = None, status = Status_inwork\<rparr>]"
      Status_inwork "''p''" "[]"]
    taskFilter_spec [of
      "[\<lparr>task_id = ''b'', title = Some ''U'', description = Some ''D'', status = Status_backlog\<rparr>]"
      Status_done "''p''" "[Create ''b'' (Some ''U'') (Some ''D''), Update ''p'' Status_done]"]
    Status_distinct
  by (simp add: placeholder_def initial_tasks_def real_statuses_def)

text \<open>
  Claim C10. When no task has the status of a column, \<open>taskFilter\<close> returns one object
  that has the id \<open>uuid()\<close> returned at that call, the status \<open>Status.empty\<close> and neither
  title nor description. When that id is the id of no task, dropping the placeholder
  on a column, which is \<open>dropHandler\<close> of the column applied to the id of the
  placeholder, leaves the list of the store as it was.
\<close>

theorem placeholder_drop_noop:
  assumes "\<not> (\<exists>t\<in>set tasks. status t = S)" and "u \<notin> set (map task_id tasks)"
  shows "taskFilter u tasks S
           = [\<lparr>task_id = u, title = None, description = None, status = Status_empty\<rparr>]
    \<and> dropHandler S' (task_id (hd (taskFilter u tasks S))) L tasks = tasks"
proof -
  have f: "taskFilter u tasks S = [placeholder u]"
    using assms(1) by (rule taskFilter_none)
  then have "task_id (hd (taskFilter u tasks S)) = u"
    by (simp add: placeholder_def)
  with assms(2) have "dropHandler S' (task_id (hd (taskFilter u tasks S))) L tasks = tasks"
    by (simp add: dropHandler_def update_absent)
  with f show ?thesis by (simp add: placeholder_def)
qed

theorem placeholder_drop_noop_witness:
  "\<not> (\<exists>t\<in>set
      [\<lparr>task_id = ''b'', title = Some ''U'', description = Some ''D'', status = Status_backlog\<rparr>].
      status t = Status_done)
   \<and> ''p'' \<notin> set (map task_id
      [\<lparr>task_id = ''b'', title = Some ''U'', description = Some ''D'', status = Status_backlog\<rparr>])
   \<and> dropHandler Status_inwork (task_id (hd (taskFilter ''p''
      [\<lparr>task_id = ''b'', title = Some ''U'', description = Some ''D'', status = Status_backlog\<rparr>]
      Status_done))) Status_inwork
      [\<lparr>task_id = ''b'', title = Some ''U'', description = Some ''D'', status = Status_backlog\<rparr>]
     = [\<lparr>task_id = ''b'', title = Some ''U'', description = Some ''D'', status = Status_backlog\<rparr>]"
  using placeholder_drop_noop [of
      "[\<lparr>task_id = ''b'', title = Some ''U'', description = Some ''D'', status = Status_backlog\<rparr>]"
      Status_done "''p''" Status_inwork Status_inwork]
    Status_distinct
  by (simp add: taskFilter_def placeholder_def dropHandler_def update_def)

section \<open>The arithmetic of the statistics\<close>

subsection \<open>Exponent and rounding\<close>

lemma ilog2_bounds:
  assumes "0 < x"
  shows "2 powi (ilog2 x) \<le> x" and "x < 2 powi (ilog2 x + 1)"
proof -
  have "2 powi (ilog2 x) \<le> x \<and> x < 2 powi (ilog2 x + 1)"
  proof (cases "1 \<le> x")
    case True
    define a where "a = \<lfloor>x\<rfloor>"
    have a: "0 < a" using True by (simp add: a_def)
    then have bl: "1 \<le> bitlen a" by (simp add: bitlen_alt_def)
    from bitlen_bounds [OF a] have lo: "2 ^ nat (bitlen a - 1) \<le> a" and hi: "a < 2 ^ nat (bitlen a)"
      by simp_all
    have e: "ilog2 x = bitlen a - 1" using True by (simp add: ilog2_def a_def)
    have "(2::rat) powi (bitlen a - 1) = 2 ^ nat (bitlen a - 1)"
      using bl by (simp add: power_int_nonneg_exp)
    also have "\<dots> = of_int (2 ^ nat (bitlen a - 1))" by simp
    also have "\<dots> \<le> of_int a" using lo by (simp only: of_int_le_iff)
    also have "\<dots> \<le> x" by (simp add: a_def)
    finally have 1: "2 powi (ilog2 x) \<le> x" by (simp add: e)
    from hi have "a + 1 \<le> 2 ^ nat (bitlen a)" by simp
    then have "(of_int (a + 1) :: rat) \<le> of_int (2 ^ nat (bitlen a))"
      by (simp only: of_int_le_iff)
    moreover have "x < of_int (a + 1)" unfolding a_def by linarith
    ultimately have "x < of_int (2 ^ nat (bitlen a))" by linarith
    also have "\<dots> = 2 powi (bitlen a)"
      using bl by (simp add: power_int_nonneg_exp)
    finally have 2: "x < 2 powi (ilog2 x + 1)" by (simp add: e)
    from 1 2 show ?thesis ..
  next
    case False
    define y where "y = 1 / x"
    define a where "a = \<lceil>y\<rceil> - 1"
    from False assms have y1: "1 < y" by (simp add: y_def)
    then have a: "0 < a" unfolding a_def by linarith
    then have bl: "1 \<le> bitlen a" by (simp add: bitlen_alt_def)
    from bitlen_bounds [OF a] have lo: "2 ^ nat (bitlen a - 1) \<le> a" and hi: "a < 2 ^ nat (bitlen a)"
      by simp_all
    have e: "ilog2 x = - bitlen a" using False by (simp add: ilog2_def a_def y_def)
    have ylo: "of_int a < y" unfolding a_def by linarith
    have yhi: "y \<le> of_int (a + 1)" unfolding a_def by simp
    have p1: "(2::rat) powi (bitlen a) = of_int (2 ^ nat (bitlen a))"
      using bl by (simp add: power_int_nonneg_exp)
    have p2: "(2::rat) powi (bitlen a - 1) = of_int (2 ^ nat (bitlen a - 1))"
      using bl by (simp add: power_int_nonneg_exp)
    from hi have "a + 1 \<le> 2 ^ nat (bitlen a)" by simp
    then have "(of_int (a + 1) :: rat) \<le> of_int (2 ^ nat (bitlen a))"
      by (simp only: of_int_le_iff)
    with yhi p1 have "y \<le> 2 powi (bitlen a)" by linarith
    then have "1 / (2 powi (bitlen a)) \<le> 1 / y"
      using y1 by (intro divide_left_mono) (simp_all)
    then have 1: "2 powi (ilog2 x) \<le> x"
      using assms by (simp add: e y_def power_int_minus_divide)
    from lo have "(of_int (2 ^ nat (bitlen a - 1)) :: rat) \<le> of_int a"
      by (simp only: of_int_le_iff)
    with ylo p2 have "2 powi (bitlen a - 1) < y" by linarith
    moreover have "(0::rat) < 2 powi (bitlen a - 1)" by simp
    ultimately have "1 / y < 1 / (2 powi (bitlen a - 1))"
      using y1 by (intro divide_strict_left_mono mult_pos_pos) simp_all
    moreover have "1 / ((2::rat) powi (bitlen a - 1)) = 2 powi (- bitlen a + 1)"
      using power_int_minus_divide [of "2::rat" "bitlen a - 1"] by simp
    ultimately have 2: "x < 2 powi (ilog2 x + 1)"
      using assms by (simp add: e y_def)
    from 1 2 show ?thesis ..
  qed
  then show "2 powi (ilog2 x) \<le> x" and "x < 2 powi (ilog2 x + 1)" by simp_all
qed

lemma round_half_even_error: "\<bar>of_int (round_half_even x) - x\<bar> \<le> 1 / 2"
proof -
  have "of_int \<lfloor>x\<rfloor> \<le> x" "x < of_int \<lfloor>x\<rfloor> + 1" by linarith+
  then show ?thesis
    by (auto simp: round_half_even_def Let_def)
qed

lemma round_binary64_error:
  assumes lo: "2 powi (- 1022) \<le> x" and hi: "x < 2 powi 1023"
  shows "\<exists>r. round_binary64 x = Finite r \<and> \<bar>r - x\<bar> \<le> x / 2 ^ 53"
proof -
  have pos: "0 < x"
    using lo zero_less_power_int [of "2::rat" "- 1022"] by linarith
  define e where "e = ilog2 x"
  define q :: rat where "q = 2 powi (e - 52)"
  define m where "m = round_half_even (x / q)"
  have b: "2 powi e \<le> x" "x < 2 powi (e + 1)"
    using ilog2_bounds [OF pos] by (simp_all add: e_def)
  from lo b(2) have "(2::rat) powi (- 1022) < 2 powi (e + 1)" by linarith
  then have "- 1022 < e + 1"
    using power_int_increasing [of "e + 1" "- 1022" "2::rat"] by (cases "- 1022 < e + 1") auto
  then have emax: "max e (- 1022) = e" by simp
  have qpos: "0 < q" by (simp add: q_def)
  have qe: "q * 2 ^ 53 = 2 * 2 powi e"
  proof -
    have "(2::rat) powi (e - 52) * 2 powi 53 = 2 powi (e - 52 + 53)"
      by (subst power_int_add) simp_all
    also have "\<dots> = 2 powi (e + 1)" by (simp add: algebra_simps)
    also have "\<dots> = 2 powi e * 2" by (subst power_int_add) simp_all
    finally show ?thesis by (simp add: q_def)
  qed
  have "\<bar>of_int m - x / q\<bar> \<le> 1 / 2"
    unfolding m_def by (rule round_half_even_error)
  then have "\<bar>of_int m - x / q\<bar> * q \<le> 1 / 2 * q"
    using qpos by (intro mult_right_mono) simp_all
  moreover have "\<bar>of_int m - x / q\<bar> * q = \<bar>of_int m * q - x\<bar>"
  proof -
    have "\<bar>of_int m - x / q\<bar> * q = \<bar>of_int m - x / q\<bar> * \<bar>q\<bar>"
      using qpos by simp
    also have "\<dots> = \<bar>(of_int m - x / q) * q\<bar>" by (simp only: abs_mult)
    also have "(of_int m - x / q) * q = of_int m * q - x"
      using qpos by (simp add: left_diff_distrib)
    finally show ?thesis .
  qed
  ultimately have err: "\<bar>of_int m * q - x\<bar> \<le> q / 2" by simp
  have "q / 2 * 2 ^ 53 = 2 powi e" using qe by simp
  then have "q / 2 = 2 powi e / 2 ^ 53" by (simp add: field_simps)
  also have "\<dots> \<le> x / 2 ^ 53" using b(1) by (intro divide_right_mono) simp_all
  finally have qx: "q / 2 \<le> x / 2 ^ 53" .
  with err have err': "\<bar>of_int m * q - x\<bar> \<le> x / 2 ^ 53" by linarith
  have "x / 2 ^ 53 \<le> x" using pos by (simp add: field_simps)
  with err' have "of_int m * q \<le> 2 * x" by linarith
  also have "\<dots> < 2 * 2 powi 1023" using hi by simp
  also have "\<dots> = 2 powi 1024" by simp
  finally have noov: "\<not> 2 powi 1024 \<le> of_int m * q" by simp
  have "round_binary64 x = Finite (of_int m * q)"
    using pos noov emax
    by (simp add: round_binary64_def Let_def e_def [symmetric] q_def [symmetric] m_def [symmetric])
  with err' show ?thesis by blast
qed

subsection \<open>The percentage as a number\<close>

lemma round_binary64_0: "round_binary64 0 = Finite 0"
  by (simp add: round_binary64_def)

lemma abs_diff_D: "\<bar>a - b\<bar> \<le> c \<Longrightarrow> a \<le> b + c \<and> b \<le> a + (c::rat)"
  by linarith

lemma abs_diff_I: "a \<le> b + c \<Longrightarrow> b \<le> a + (c::rat) \<Longrightarrow> \<bar>a - b\<bar> \<le> c"
  by linarith

lemma percent_number:
  fixes d t :: nat
  assumes t0: "0 < t" and dt: "d \<le> t" and tb: "t < 2 ^ 32"
  shows "\<exists>r. times_number (divide_number (Finite (of_nat d)) (Finite (of_nat t))) (Finite 100) = Finite r
           \<and> 0 \<le> r \<and> r \<le> 300 \<and> \<bar>r - 100 * of_nat d / of_nat t\<bar> \<le> 300 / 2 ^ 53"
proof (cases "d = 0")
  case True
  have "divide_number (Finite 0) (Finite (of_nat t)) = Finite 0"
    using t0 by (simp add: round_binary64_0)
  then have "times_number (divide_number (Finite (of_nat d)) (Finite (of_nat t))) (Finite 100) = Finite 0"
    using True by (simp add: round_binary64_0)
  moreover have "\<bar>(0::rat) - 100 * of_nat d / of_nat t\<bar> \<le> 300 / 2 ^ 53"
    using True by simp
  ultimately show ?thesis by (intro exI [of _ 0]) simp
next
  case False
  define x :: rat where "x = of_nat d / of_nat t"
  have T: "(0::rat) < of_nat t" "(of_nat t :: rat) < 2 ^ 32"
  proof -
    show "(0::rat) < of_nat t" using t0 by simp
    have "(of_nat t :: rat) < of_nat (2 ^ 32)" using tb by (simp only: of_nat_less_iff)
    then show "(of_nat t :: rat) < 2 ^ 32" by simp
  qed
  have D: "(1::rat) \<le> of_nat d" "(of_nat d :: rat) \<le> of_nat t"
    using False dt by (simp_all add: Suc_le_eq)
  have x1: "x \<le> 1" using T D by (simp add: x_def)
  have "1 / of_nat t \<le> x" unfolding x_def using T D by (intro divide_right_mono) simp_all
  moreover have "1 / 2 ^ 32 < 1 / (of_nat t :: rat)"
    using T by (intro divide_strict_left_mono mult_pos_pos) simp_all
  ultimately have x0: "1 / 2 ^ 32 < x" by linarith
  have "2 powi (- 1022) \<le> x" "x < 2 powi 1023"
    using x0 x1 by simp_all
  then obtain r1 where r1: "round_binary64 x = Finite r1" "\<bar>r1 - x\<bar> \<le> x / 2 ^ 53"
    using round_binary64_error by blast
  from abs_diff_D [OF r1(2)] have e1: "r1 \<le> x + x / 2 ^ 53" "x \<le> r1 + x / 2 ^ 53"
    by simp_all
  with x0 x1 have r1b: "1 / 2 ^ 33 \<le> r1" "r1 \<le> 2"
    by (simp_all add: field_simps)
  have "2 powi (- 1022) \<le> r1 * 100" "r1 * 100 < 2 powi 1023"
    using r1b by simp_all
  then obtain r2 where r2: "round_binary64 (r1 * 100) = Finite r2"
      "\<bar>r2 - r1 * 100\<bar> \<le> r1 * 100 / 2 ^ 53"
    using round_binary64_error by blast
  from abs_diff_D [OF r2(2)]
  have e2: "r2 \<le> r1 * 100 + r1 * 100 / 2 ^ 53" "r1 * 100 \<le> r2 + r1 * 100 / 2 ^ 53"
    by simp_all
  have "r2 \<le> 100 * x + 300 / 2 ^ 53" "100 * x \<le> r2 + 300 / 2 ^ 53"
    using e1 e2 x1 r1b by (simp_all add: field_simps)
  then have "\<bar>r2 - 100 * x\<bar> \<le> 300 / 2 ^ 53" by (rule abs_diff_I)
  moreover have "0 \<le> r2" "r2 \<le> 300"
    using e2 r1b by (simp_all add: field_simps)
  moreover have "times_number (divide_number (Finite (of_nat d)) (Finite (of_nat t))) (Finite 100) = Finite r2"
    using t0 r1(1) r2(1) by (simp add: x_def)
  ultimately show ?thesis by (simp add: x_def)
qed

subsection \<open>\<open>toFixed\<close>\<close>

text \<open>The integer that \<open>toFixed_1\<close> prints is the one ECMAScript asks for.\<close>

lemma toFixed_nearest:
  fixes v :: rat and k :: int
  defines "n \<equiv> \<lfloor>v * 10 + 1 / 2\<rfloor>"
  shows "\<bar>of_int n / 10 - v\<bar> \<le> \<bar>of_int k / 10 - v\<bar>"
    and "\<bar>of_int k / 10 - v\<bar> = \<bar>of_int n / 10 - v\<bar> \<Longrightarrow> k \<le> n"
proof -
  have nb: "of_int n \<le> v * 10 + 1 / 2" "v * 10 + 1 / 2 < of_int n + 1"
    unfolding n_def by linarith+
  consider "k \<le> n - 1" | "k = n" | "n + 1 \<le> k" by linarith
  then have "\<bar>of_int n / 10 - v\<bar> \<le> \<bar>of_int k / 10 - v\<bar>
      \<and> (\<bar>of_int k / 10 - v\<bar> = \<bar>of_int n / 10 - v\<bar> \<longrightarrow> k \<le> n)"
  proof cases
    case 1
    then have "(of_int k :: rat) \<le> of_int (n - 1)" by (simp only: of_int_le_iff)
    then have "(of_int k :: rat) \<le> of_int n - 1" by simp
    with nb 1 show ?thesis by (simp add: abs_if field_simps)
  next
    case 2
    then show ?thesis by simp
  next
    case 3
    then have "(of_int (n + 1) :: rat) \<le> of_int k" by (simp only: of_int_le_iff)
    then have "(of_int n :: rat) + 1 \<le> of_int k" by simp
    with nb show ?thesis by (simp add: abs_if field_simps)
  qed
  then show "\<bar>of_int n / 10 - v\<bar> \<le> \<bar>of_int k / 10 - v\<bar>"
    and "\<bar>of_int k / 10 - v\<bar> = \<bar>of_int n / 10 - v\<bar> \<Longrightarrow> k \<le> n" by simp_all
qed

lemma decimal_small: "n < 10 \<Longrightarrow> decimal n = [digit n]"
  by (subst decimal.simps) simp

lemma decimal_large: "10 \<le> n \<Longrightarrow> decimal n = decimal (n div 10) @ [digit (n mod 10)]"
  by (subst decimal.simps) simp

lemma decimal_nonempty: "decimal n \<noteq> []"
  by (subst decimal.simps) simp

lemma toFixed_1_digits:
  assumes "v < 10 ^ 21"
  shows "toFixed_1 (Finite v)
           = Some (decimal (nat \<lfloor>v * 10 + 1 / 2\<rfloor> div 10) @ ''.''
                     @ decimal (nat \<lfloor>v * 10 + 1 / 2\<rfloor> mod 10))"
proof -
  define n where "n = nat \<lfloor>v * 10 + 1 / 2\<rfloor>"
  have last: "decimal (n mod 10) = [digit (n mod 10)]"
    by (rule decimal_small) simp
  show ?thesis
  proof (cases "n < 10")
    case True
    then have "decimal n = [digit n]" "n div 10 = 0" "n mod 10 = n"
      by (simp_all add: decimal_small)
    moreover have "decimal 0 = [digit 0]" by (rule decimal_small) simp
    moreover have "digit 0 = CHR ''0''" by (simp add: digit_def)
    ultimately show ?thesis
      using assms by (simp add: toFixed_1_def Let_def n_def [symmetric])
  next
    case False
    then have d: "decimal n = decimal (n div 10) @ [digit (n mod 10)]"
      by (simp add: decimal_large)
    have "1 \<le> length (decimal (n div 10))"
      using decimal_nonempty [of "n div 10"] by (cases "decimal (n div 10)") simp_all
    then show ?thesis
      using assms d last
      by (simp add: toFixed_1_def Let_def n_def [symmetric] decimal_nonempty)
  qed
qed

lemma nearest_tenth:
  fixes d t :: nat and r :: rat
  assumes t0: "0 < t" and tb: "t < 2 ^ 32"
    and r0: "0 \<le> r"
    and err: "\<bar>r - 100 * of_nat d / of_nat t\<bar> \<le> 300 / 2 ^ 53"
  shows "\<bar>of_nat (nat \<lfloor>r * 10 + 1 / 2\<rfloor>) / 10 - 100 * of_nat d / of_nat t\<bar> \<le> (1 / 20 :: rat)"
proof -
  define n where "n = \<lfloor>r * 10 + 1 / 2\<rfloor>"
  define T :: rat where "T = of_nat t"
  define X :: rat where "X = 100 * of_nat d / of_nat t"
  have n0: "0 \<le> n" using r0 by (simp add: n_def)
  have nb: "of_int n \<le> r * 10 + 1 / 2" "r * 10 + 1 / 2 < of_int n + 1"
    unfolding n_def by linarith+
  have T: "0 < T" "T < 2 ^ 32"
  proof -
    show "0 < T" using t0 by (simp add: T_def)
    have "(of_nat t :: rat) < of_nat (2 ^ 32)" using tb by (simp only: of_nat_less_iff)
    then show "T < 2 ^ 32" by (simp add: T_def)
  qed
  have XT: "X * T = 100 * of_nat d" using T(1) by (simp add: X_def T_def)
  from abs_diff_D [OF err] have e: "r \<le> X + 300 / 2 ^ 53" "X \<le> r + 300 / 2 ^ 53"
    by (simp_all add: X_def)
  have lo: "of_int n - 1 / 2 - 3000 / 2 ^ 53 \<le> 10 * X"
    using nb(1) e(1) by (simp add: field_simps)
  have hi: "10 * X < of_int n + 1 / 2 + 3000 / 2 ^ 53"
    using nb(2) e(2) by (simp add: field_simps)
  have small: "6000 / 2 ^ 53 * T < 1"
    using T by (simp add: field_simps)
  have "(of_int n - 1 / 2 - 3000 / 2 ^ 53) * (2 * T) \<le> 10 * X * (2 * T)"
    using lo T(1) by (intro mult_right_mono) simp_all
  then have "of_int (2 * n - 1) * T - 6000 / 2 ^ 53 * T \<le> 2000 * of_nat d"
    using XT by (simp add: algebra_simps)
  with small have "of_int (2 * n - 1) * T - 1 < 2000 * of_nat d" by linarith
  then have "(of_int ((2 * n - 1) * int t - 1) :: rat) < of_int (2000 * int d)"
    by (simp add: T_def)
  then have "(2 * n - 1) * int t - 1 < 2000 * int d" by (simp only: of_int_less_iff)
  then have "(2 * n - 1) * int t \<le> 2000 * int d" by simp
  then have "(of_int ((2 * n - 1) * int t) :: rat) \<le> of_int (2000 * int d)"
    by (simp only: of_int_le_iff)
  then have "(2 * of_int n - 1) * T \<le> 20 * (X * T)"
    by (simp add: T_def XT [unfolded T_def])
  then have "(2 * of_int n - 1) * T \<le> (20 * X) * T" by (simp add: mult.assoc)
  then have L: "2 * of_int n - 1 \<le> 20 * X"
    using T(1) by (simp only: mult_le_cancel_right_pos)
  have "10 * X * (2 * T) < (of_int n + 1 / 2 + 3000 / 2 ^ 53) * (2 * T)"
    using hi T(1) by (intro mult_strict_right_mono) simp_all
  then have "2000 * of_nat d < of_int (2 * n + 1) * T + 6000 / 2 ^ 53 * T"
    using XT by (simp add: algebra_simps)
  with small have "2000 * of_nat d < of_int (2 * n + 1) * T + 1" by linarith
  then have "(of_int (2000 * int d) :: rat) < of_int ((2 * n + 1) * int t + 1)"
    by (simp add: T_def)
  then have "2000 * int d < (2 * n + 1) * int t + 1" by (simp only: of_int_less_iff)
  then have "2000 * int d \<le> (2 * n + 1) * int t" by simp
  then have "(of_int (2000 * int d) :: rat) \<le> of_int ((2 * n + 1) * int t)"
    by (simp only: of_int_le_iff)
  then have "20 * (X * T) \<le> (2 * of_int n + 1) * T"
    by (simp add: T_def XT [unfolded T_def])
  then have "(20 * X) * T \<le> (2 * of_int n + 1) * T" by (simp add: mult.assoc)
  then have U: "20 * X \<le> 2 * of_int n + 1"
    using T(1) by (simp only: mult_le_cancel_right_pos)
  have "(of_nat (nat n) :: rat) = of_int n" using n0 by simp
  moreover have "of_int n / 10 \<le> X + 1 / 20" "X \<le> of_int n / 10 + 1 / 20"
    using L U by (simp_all add: field_simps)
  ultimately have "\<bar>of_nat (nat n) / 10 - X\<bar> \<le> (1 / 20 :: rat)"
    by (intro abs_diff_I) simp_all
  then show ?thesis by (simp add: n_def X_def)
qed

subsection \<open>The counters and the fourth component\<close>

lemma count_loop_counts:
  "count_loop tasks (b, i, d) =
     (b + count_status Status_backlog tasks, i + count_status Status_inwork tasks,
      d + count_status Status_done tasks)"
proof (induction tasks arbitrary: b i d)
  case Nil
  show ?case by (simp add: count_status_def)
next
  case (Cons t ts)
  show ?case using Status_distinct by (simp add: Cons.IH count_status_def)
qed

lemma count_status_sum:
  "count_status Status_backlog tasks + count_status Status_inwork tasks
     + count_status Status_done tasks \<le> length tasks"
proof (induction tasks)
  case Nil
  show ?case by (simp add: count_status_def)
next
  case (Cons t ts)
  then show ?case using Status_distinct by (auto simp: count_status_def)
qed

lemma stats_zero:
  assumes "count_loop tasks (0, 0, 0) = (0, 0, 0)"
  shows "stats tasks = (0, 0, 0, Some (Num (Finite 0)))"
  using assms by (simp add: stats_def isNaN_def)

lemma stats_pos:
  assumes c: "count_loop tasks (0, 0, 0) = (b, i, d)" and pos: "0 < b + i + d"
    and len: "b + i + d < 2 ^ 32"
  shows "\<exists>n. stats tasks = (b, i, d, Some (Str (decimal (n div 10) @ ''.'' @ decimal (n mod 10))))
           \<and> \<bar>of_nat n / 10 - 100 * of_nat d / of_nat (b + i + d)\<bar> \<le> (1 / 20 :: rat)"
proof -
  have t: "b + d + i = b + i + d" by simp
  from percent_number [of "b + i + d" d] pos len
  obtain r where r: "times_number (divide_number (Finite (of_nat d)) (Finite (of_nat (b + i + d))))
        (Finite 100) = Finite r" "0 \<le> r" "r \<le> 300"
      "\<bar>r - 100 * of_nat d / of_nat (b + i + d)\<bar> \<le> 300 / 2 ^ 53"
    by auto
  define n where "n = nat \<lfloor>r * 10 + 1 / 2\<rfloor>"
  have "r < 10 ^ 21" using r(3) by simp
  then have "toFixed_1 (Finite r) = Some (decimal (n div 10) @ ''.'' @ decimal (n mod 10))"
    unfolding n_def by (rule toFixed_1_digits)
  moreover have p: "times_number (divide_number (Finite (of_nat d)) (Finite (of_nat (b + d + i))))
        (Finite 100) = Finite r"
    using r(1) by (simp only: t)
  have "stats tasks = (b, i, d,
      if isNaN (Finite r) then Some (Num (Finite 0)) else map_option Str (toFixed_1 (Finite r)))"
    by (simp only: stats_def c Let_def prod.case p)
  ultimately have "stats tasks = (b, i, d, Some (Str (decimal (n div 10) @ ''.'' @ decimal (n mod 10))))"
    by (simp add: isNaN_def)
  moreover have "\<bar>of_nat n / 10 - 100 * of_nat d / of_nat (b + i + d)\<bar> \<le> (1 / 20 :: rat)"
    unfolding n_def using pos len r(2) r(4) by (rule nearest_tenth)
  ultimately show ?thesis by blast
qed

subsection \<open>Two percentages computed\<close>

lemma floor_rat_numeral: "\<lfloor>(numeral a :: rat) / numeral b\<rfloor> = numeral a div numeral b"
  using floor_divide_of_int_eq [of "numeral a" "numeral b", where ?'a = rat] by simp

lemma round_quarter: "round_binary64 (1 / 4) = Finite (1 / 4)"
  by (simp add: round_binary64_def ilog2_def compute_bitlen round_half_even_def
      power_int_def Let_def power_divide)

lemma round_25: "round_binary64 25 = Finite 25"
  by (simp add: round_binary64_def ilog2_def compute_bitlen round_half_even_def
      power_int_def Let_def power_divide)

lemma decimal_25: "decimal 25 = ''25''" and decimal_0: "decimal 0 = ''0''"
  and decimal_33: "decimal 33 = ''33''" and decimal_3: "decimal 3 = ''3''"
  by (simp_all add: decimal.simps digit_def)

lemma ilog2_third: "ilog2 (1 / 3) = - 2"
  by (simp add: ilog2_def compute_bitlen)

lemma round_third: "round_binary64 (1 / 3) = Finite (6004799503160661 / 18014398509481984)"
proof -
  have "round_half_even (18014398509481984 / 3) = 6004799503160661"
    by (simp add: round_half_even_def Let_def floor_rat_numeral)
  then show ?thesis
    by (simp add: round_binary64_def ilog2_third Let_def power_divide)
qed

lemma ilog2_33: "ilog2 (150119987579016525 / 4503599627370496) = 5"
  by (simp add: ilog2_def compute_bitlen floor_rat_numeral)

lemma round_third_100:
  "round_binary64 (150119987579016525 / 4503599627370496)
     = Finite (2345624805922133 / 70368744177664)"
proof -
  have "round_half_even (150119987579016525 / 32) = 4691249611844266"
    by (simp add: round_half_even_def Let_def floor_rat_numeral)
  then show ?thesis
    by (simp add: round_binary64_def ilog2_33 Let_def power_divide)
qed

lemma toFixed_1_25: "toFixed_1 (Finite 25) = Some ''25.0''"
  by (simp add: toFixed_1_digits floor_rat_numeral decimal_25 decimal_0)

lemma toFixed_1_third:
  "toFixed_1 (Finite (2345624805922133 / 70368744177664)) = Some ''33.3''"
  by (simp add: toFixed_1_digits floor_rat_numeral decimal_33 decimal_3)

subsection \<open>Away from a tie the rounding is the exact one\<close>

lemma floor_half_unique:
  fixes X :: rat and n :: int
  assumes "2 * of_int n - 1 \<le> 20 * X" "20 * X < 2 * of_int n + 1"
  shows "\<lfloor>X * 10 + 1 / 2\<rfloor> = n"
  using assms by (intro floor_unique) (simp_all add: field_simps)

lemma nearest_tenth_exact:
  fixes d t :: nat and r :: rat
  assumes t0: "0 < t" and tb: "t < 2 ^ 32"
    and r0: "0 \<le> r"
    and err: "\<bar>r - 100 * of_nat d / of_nat t\<bar> \<le> 300 / 2 ^ 53"
    and notie: "2000 * d mod (2 * t) \<noteq> t"
  shows "\<lfloor>r * 10 + 1 / 2\<rfloor> = \<lfloor>(of_nat d / of_nat t * 100) * 10 + 1 / 2 :: rat\<rfloor>"
proof -
  define n where "n = \<lfloor>r * 10 + 1 / 2\<rfloor>"
  define X :: rat where "X = 100 * of_nat d / of_nat t"
  have n0: "0 \<le> n" using r0 by (simp add: n_def)
  then have nn: "(of_nat (nat n) :: rat) = of_int n" by simp
  have T: "(0::rat) < of_nat t" using t0 by simp
  have "\<bar>of_nat (nat n) / 10 - X\<bar> \<le> (1 / 20 :: rat)"
    unfolding n_def X_def using t0 tb r0 err by (rule nearest_tenth)
  then have "\<bar>of_int n / 10 - X\<bar> \<le> (1 / 20 :: rat)" by (simp only: nn)
  from abs_diff_D [OF this] have L: "2 * of_int n - 1 \<le> 20 * X" and U: "20 * X \<le> 2 * of_int n + 1"
    by (simp_all add: field_simps)
  have "20 * X \<noteq> 2 * of_int n + 1"
  proof
    assume "20 * X = 2 * of_int n + 1"
    then have "20 * X * of_nat t = (2 * of_int n + 1) * of_nat t" by simp
    moreover have "20 * X * of_nat t = 2000 * of_nat d" using T by (simp add: X_def)
    ultimately have "(of_int (2000 * int d) :: rat) = of_int ((2 * n + 1) * int t)" by simp
    then have "2000 * int d = (2 * n + 1) * int t" by (simp only: of_int_eq_iff)
    then have "2000 * int d = n * (2 * int t) + int t" by (simp add: algebra_simps)
    then have "2000 * int d mod (2 * int t) = int t mod (2 * int t)" by simp
    also have "\<dots> = int t" using t0 by simp
    finally have "int (2000 * d mod (2 * t)) = int t" by (simp add: zmod_int)
    then have "2000 * d mod (2 * t) = t" by (simp only: of_nat_eq_iff)
    with notie show False by contradiction
  qed
  with U have "20 * X < 2 * of_int n + 1" by linarith
  with L have "\<lfloor>X * 10 + 1 / 2\<rfloor> = n" by (rule floor_half_unique)
  moreover have "X = of_nat d / of_nat t * 100" by (simp add: X_def)
  ultimately show ?thesis by (simp add: n_def)
qed

lemma spec_percent_zero: "spec_percent 0 0 0 = Some (Num (Finite 0))"
  by (simp add: spec_percent_def)

lemma stats_exact:
  assumes c: "count_loop tasks (0, 0, 0) = (b, i, d)" and pos: "0 < b + i + d"
    and len: "b + i + d < 2 ^ 32"
    and notie: "2000 * d mod (2 * (b + i + d)) \<noteq> b + i + d"
  shows "stats tasks = (b, i, d, spec_percent b i d)"
proof -
  have t: "b + d + i = b + i + d" by simp
  from percent_number [of "b + i + d" d] pos len
  obtain r where r: "times_number (divide_number (Finite (of_nat d)) (Finite (of_nat (b + i + d))))
        (Finite 100) = Finite r" "0 \<le> r" "r \<le> 300"
      "\<bar>r - 100 * of_nat d / of_nat (b + i + d)\<bar> \<le> 300 / 2 ^ 53"
    by auto
  define X :: rat where "X = of_nat d / of_nat (b + i + d) * 100"
  have fl: "\<lfloor>r * 10 + 1 / 2\<rfloor> = \<lfloor>X * 10 + 1 / 2\<rfloor>"
    unfolding X_def using pos len r(2) r(4) notie by (rule nearest_tenth_exact)
  have "(of_nat d :: rat) \<le> of_nat (b + i + d)" by (simp only: of_nat_le_iff)
  moreover have "(0::rat) < of_nat (b + i + d)" using pos by (simp only: of_nat_0_less_iff)
  ultimately have "of_nat d / (of_nat (b + i + d) :: rat) \<le> 1" by (simp add: divide_le_eq_1)
  then have "of_nat d / (of_nat (b + i + d) :: rat) * 100 \<le> 1 * 100"
    by (rule mult_right_mono) simp
  then have "X \<le> 100" by (simp only: X_def mult_1)
  then have "X < 10 ^ 21" by simp
  then have "toFixed_1 (Finite X)
      = Some (decimal (nat \<lfloor>X * 10 + 1 / 2\<rfloor> div 10) @ ''.''
                @ decimal (nat \<lfloor>X * 10 + 1 / 2\<rfloor> mod 10))"
    by (rule toFixed_1_digits)
  moreover have "r < 10 ^ 21" using r(3) by simp
  then have "toFixed_1 (Finite r)
      = Some (decimal (nat \<lfloor>r * 10 + 1 / 2\<rfloor> div 10) @ ''.''
                @ decimal (nat \<lfloor>r * 10 + 1 / 2\<rfloor> mod 10))"
    by (rule toFixed_1_digits)
  ultimately have same: "toFixed_1 (Finite r) = toFixed_1 (Finite X)"
    by (simp only: fl)
  have p: "times_number (divide_number (Finite (of_nat d)) (Finite (of_nat (b + d + i))))
        (Finite 100) = Finite r"
    using r(1) by (simp only: t)
  have "stats tasks = (b, i, d,
      if isNaN (Finite r) then Some (Num (Finite 0)) else map_option Str (toFixed_1 (Finite r)))"
    by (simp only: stats_def c Let_def prod.case p)
  then have "stats tasks = (b, i, d, map_option Str (toFixed_1 (Finite X)))"
    by (simp add: isNaN_def same)
  moreover have "spec_percent b i d = map_option Str (toFixed_1 (Finite X))"
  proof -
    from pos have "b + i + d \<noteq> 0" by simp
    then show ?thesis by (simp only: spec_percent_def X_def if_False)
  qed
  ultimately show ?thesis by simp
qed

subsection \<open>A tie: 23 of 80\<close>

lemma ilog2_23_80: "ilog2 (23 / 80) = - 2"
proof -
  have "\<lceil>(80::rat) / 23\<rceil> = 4" by (rule ceiling_unique) simp_all
  then show ?thesis by (simp add: ilog2_def compute_bitlen)
qed

lemma round_23_80: "round_binary64 (23 / 80) = Finite (2589569785738035 / 9007199254740992)"
proof -
  have "round_half_even (25895697857380352 / 5) = 5179139571476070"
    by (simp add: round_half_even_def Let_def floor_rat_numeral)
  then show ?thesis
    by (simp add: round_binary64_def ilog2_23_80 Let_def power_divide)
qed

lemma ilog2_28: "ilog2 (64739244643450875 / 2251799813685248) = 4"
  by (simp add: ilog2_def compute_bitlen floor_rat_numeral)

lemma round_23_80_100:
  "round_binary64 (64739244643450875 / 2251799813685248)
     = Finite (8092405580431359 / 281474976710656)"
proof -
  have "round_half_even (64739244643450875 / 8) = 8092405580431359"
    by (simp add: round_half_even_def Let_def floor_rat_numeral)
  then show ?thesis
    by (simp add: round_binary64_def ilog2_28 Let_def power_divide)
qed

lemma decimal_28: "decimal 28 = ''28''" and decimal_7: "decimal 7 = ''7''"
  and decimal_8: "decimal 8 = ''8''"
  by (simp_all add: decimal.simps digit_def)

lemma toFixed_1_tie:
  "toFixed_1 (Finite (8092405580431359 / 281474976710656)) = Some ''28.7''"
  by (simp add: toFixed_1_digits floor_rat_numeral decimal_28 decimal_7)

lemma stats_tie:
  assumes "count_loop tasks (0, 0, 0) = (57, 0, 23)"
  shows "stats tasks = (57, 0, 23, Some (Str ''28.7''))"
  using assms
  by (simp add: stats_def Let_def round_23_80 round_23_80_100 toFixed_1_tie isNaN_def)

lemma spec_percent_tie: "spec_percent 57 0 23 = Some (Str ''28.8'')"
  by (simp add: spec_percent_def toFixed_1_digits floor_rat_numeral decimal_28 decimal_8)

lemma spec_percent_third: "spec_percent 1 1 1 = Some (Str ''33.3'')"
  by (simp add: spec_percent_def toFixed_1_digits floor_rat_numeral decimal_33 decimal_3)

lemma count_status_sample:
  "count_status S' (sample_tasks k S) = (if S = S' then k else 0)"
  by (induction k) (auto simp: count_status_def)

lemma count_status_append:
  "count_status S (xs @ ys) = count_status S xs + count_status S ys"
  by (simp add: count_status_def)

lemma length_sample_tasks: "length (sample_tasks k S) = k"
  by (induction k) simp_all

lemma count_loop_tie: "count_loop tie_tasks (0, 0, 0) = (57, 0, 23)"
  using Status_distinct
  by (simp add: count_loop_counts tie_tasks_def count_status_append count_status_sample)

section \<open>The claim about the statistics\<close>




section \<open>The JSON text of the store\<close>

subsection \<open>Strings\<close>

lemma hexval_hexdigit: "m < 16 \<Longrightarrow> hexval (hexdigit m) = Some m"
proof -
  have "\<forall>m\<in>set [0..<16]. hexval (hexdigit m) = Some m" by code_simp
  then show "m < 16 \<Longrightarrow> hexval (hexdigit m) = Some m" by simp
qed

lemma hexval_0: "hexval CHR ''0'' = Some 0"
  by (simp add: hexval_def)

lemma hex4_control:
  assumes "(of_char c :: nat) < 32"
  shows "hex4 CHR ''0'' CHR ''0'' (hexdigit (of_char c div 16)) (hexdigit (of_char c mod 16))
           = Some (of_char c)"
proof -
  have "(of_char c :: nat) div 16 < 16" using assms by simp
  then have "hexval (hexdigit (of_char c div 16)) = Some (of_char c div 16)"
    by (rule hexval_hexdigit)
  moreover have "hexval (hexdigit (of_char c mod 16)) = Some (of_char c mod 16)"
    by (rule hexval_hexdigit) simp
  ultimately show ?thesis by (simp add: hex4_def hexval_0)
qed

lemma string_body_escape:
  "string_body (escape_char c @ rest) = map_option (apfst ((#) c)) (string_body rest)"
proof -
  consider "c = CHR 0x22" | "c = CHR 0x5C" | "c = CHR 0x08" | "c = CHR 0x0C" | "c = CHR 0x0A"
    | "c = CHR 0x0D" | "c = CHR 0x09"
    | "c \<noteq> CHR 0x22" "c \<noteq> CHR 0x5C" "c \<noteq> CHR 0x08" "c \<noteq> CHR 0x0C" "c \<noteq> CHR 0x0A"
      "c \<noteq> CHR 0x0D" "c \<noteq> CHR 0x09" "(of_char c :: nat) < 32"
    | "c \<noteq> CHR 0x22" "c \<noteq> CHR 0x5C" "\<not> (of_char c :: nat) < 32"
    by blast
  then show ?thesis
  proof cases
    case 8
    have "hex4 CHR ''0'' CHR ''0'' (hexdigit (of_char c div 16)) (hexdigit (of_char c mod 16))
           = Some (of_char c)" using 8(8) by (rule hex4_control)
    moreover have "escape_char c = [CHR 0x5C, CHR ''u'', CHR ''0'', CHR ''0'',
              hexdigit (of_char c div 16), hexdigit (of_char c mod 16)]"
      using 8 by (simp add: escape_char_def)
    ultimately show ?thesis using 8(8) by simp
  next
    case 9
    then have "escape_char c = [c]"
      by (auto simp: escape_char_def)
    with 9 show ?thesis by simp
  qed (simp_all add: escape_char_def unescape_def)
qed

lemma string_body_quote:
  "string_body (concat (map escape_char s) @ CHR 0x22 # rest) = Some (s, rest)"
proof (induction s)
  case Nil
  show ?case by simp
next
  case (Cons c s)
  have "string_body (concat (map escape_char (c # s)) @ CHR 0x22 # rest)
      = string_body (escape_char c @ (concat (map escape_char s) @ CHR 0x22 # rest))"
    by simp
  also have "\<dots> = map_option (apfst ((#) c))
      (string_body (concat (map escape_char s) @ CHR 0x22 # rest))"
    by (rule string_body_escape)
  finally show ?case by (simp add: Cons.IH)
qed

lemma digit_facts:
  assumes "d < 10"
  shows "is_digit (digit d)" and "(of_char (digit d) :: nat) - 48 = d"
    and "0 < d \<Longrightarrow> digit d \<noteq> CHR ''0''"
proof -
  have "\<forall>d\<in>set [0..<10]. is_digit (digit d) \<and> (of_char (digit d) :: nat) - 48 = d
      \<and> (0 < d \<longrightarrow> digit d \<noteq> CHR ''0'')"
    by code_simp
  with assms show "is_digit (digit d)" and "(of_char (digit d) :: nat) - 48 = d"
    and "0 < d \<Longrightarrow> digit d \<noteq> CHR ''0''" by simp_all
qed

lemma decimal_digits: "list_all is_digit (decimal n)"
proof (induction n rule: decimal.induct)
  case (1 n)
  show ?case
  proof (cases "n < 10")
    case True
    then show ?thesis by (simp add: decimal_small digit_facts)
  next
    case False
    with 1 show ?thesis by (simp add: decimal_large digit_facts)
  qed
qed

lemma digits_value_snoc:
  "digits_value (ds @ [c]) = 10 * digits_value ds + (of_char c - 48)"
  by (simp add: digits_value_def)

lemma digits_value_decimal: "digits_value (decimal n) = n"
proof (induction n rule: decimal.induct)
  case (1 n)
  show ?case
  proof (cases "n < 10")
    case True
    then show ?thesis by (simp add: decimal_small digits_value_def digit_facts)
  next
    case False
    with 1 have "digits_value (decimal (n div 10)) = n div 10" by simp
    with False show ?thesis
      by (simp add: decimal_large digits_value_snoc digit_facts)
  qed
qed

lemma decimal_no_leading_zero: "1 < length (decimal n) \<Longrightarrow> hd (decimal n) \<noteq> CHR ''0''"
proof (induction n rule: decimal.induct)
  case (1 n)
  show ?case
  proof (cases "n < 10")
    case True
    with 1(2) show ?thesis by (simp add: decimal_small)
  next
    case False
    then have d: "decimal n = decimal (n div 10) @ [digit (n mod 10)]"
      by (simp add: decimal_large)
    have hd: "hd (decimal n) = hd (decimal (n div 10))"
      using decimal_nonempty [of "n div 10"] by (simp add: d)
    show ?thesis
    proof (cases "n div 10 < 10")
      case True
      moreover from False have "0 < n div 10" by simp
      ultimately show ?thesis by (simp add: hd decimal_small digit_facts)
    next
      case F2: False
      then have "decimal (n div 10) = decimal (n div 10 div 10) @ [digit (n div 10 mod 10)]"
        by (simp add: decimal_large)
      then have "1 < length (decimal (n div 10))"
        using decimal_nonempty [of "n div 10 div 10"]
        by (cases "decimal (n div 10 div 10)") simp_all
      with 1(1) False show ?thesis by (simp add: hd)
    qed
  qed
qed

lemma number_p_decimal:
  assumes "number_end rest"
  shows "number_p (decimal n @ rest) = Some (n, rest)"
proof -
  have all: "\<forall>c\<in>set (decimal n). is_digit c"
    using decimal_digits [of n] by (simp add: list_all_iff)
  have nd: "rest = [] \<or> \<not> is_digit (hd rest)"
    using assms by (cases rest) (simp_all add: number_end_def)
  have tw: "takeWhile is_digit (decimal n @ rest) = decimal n"
    using all nd by (cases rest) (simp_all add: takeWhile_append2 takeWhile_eq_all_conv)
  have dw: "dropWhile is_digit (decimal n @ rest) = rest"
    using all nd by (cases rest) (simp_all add: dropWhile_append2 dropWhile_eq_Nil_conv)
  have lz: "\<not> (1 < length (decimal n) \<and> hd (decimal n) = CHR ''0'')"
    using decimal_no_leading_zero [of n] by blast
  have "number_p (decimal n @ rest)
      = (if decimal n = [] \<or> (length (decimal n) > 1 \<and> hd (decimal n) = CHR ''0'') then None
         else case rest of
                [] \<Rightarrow> Some (digits_value (decimal n), rest)
              | c # _ \<Rightarrow> if c = CHR ''.'' \<or> c = CHR ''e'' \<or> c = CHR ''E'' then None
                        else Some (digits_value (decimal n), rest))"
    by (simp only: number_p_def Let_def tw dw)
  also have "\<dots> = (case rest of
                [] \<Rightarrow> Some (n, rest)
              | c # _ \<Rightarrow> if c = CHR ''.'' \<or> c = CHR ''e'' \<or> c = CHR ''E'' then None
                        else Some (n, rest))"
  proof -
    have "\<not> (decimal n = [] \<or> (length (decimal n) > 1 \<and> hd (decimal n) = CHR ''0''))"
      using lz decimal_nonempty [of n] by blast
    then show ?thesis by (simp only: if_False digits_value_decimal)
  qed
  also have "\<dots> = Some (n, rest)"
    using assms by (cases rest) (simp_all add: number_end_def)
  finally show ?thesis .
qed

lemma delimited_number_end: "delimited rest \<Longrightarrow> number_end rest"
  by (cases rest) (auto simp: delimited_def number_end_def is_digit_def)

lemma delimited_simps:
  "delimited (CHR '','' # r)" "delimited (CHR '']'' # r)" "delimited (CHR ''}'' # r)"
  by (simp_all add: delimited_def)

lemma skip_ws_start: "\<not> is_ws c \<Longrightarrow> skip_ws (c # cs) = c # cs"
  by (simp add: skip_ws_def)

lemma skip_ws_simps:
  "skip_ws (CHR '','' # r) = CHR '','' # r" "skip_ws (CHR '']'' # r) = CHR '']'' # r"
  "skip_ws (CHR ''}'' # r) = CHR ''}'' # r" "skip_ws (CHR '':'' # r) = CHR '':'' # r"
  "skip_ws (CHR 0x22 # r) = CHR 0x22 # r"
  by (simp_all add: skip_ws_def is_ws_def)

lemma is_digit_not_special:
  assumes "is_digit c"
  shows "\<not> is_ws c" "c \<noteq> CHR '']''" "c \<noteq> CHR ''}''" "c \<noteq> CHR 0x22" "c \<noteq> CHR ''[''"
    "c \<noteq> CHR ''{''" "c \<noteq> CHR ''t''" "c \<noteq> CHR ''f''" "c \<noteq> CHR ''n''"
  using assms by (auto simp: is_digit_def is_ws_def)

lemma decimal_Cons: "\<exists>c cs. decimal n = c # cs \<and> is_digit c"
proof -
  obtain c cs where d: "decimal n = c # cs"
    using decimal_nonempty [of n] by (cases "decimal n") auto
  moreover have "is_digit c" using decimal_digits [of n] d by simp
  ultimately show ?thesis by blast
qed

lemma stringify_Cons: "\<exists>c cs. stringify j = c # cs \<and> value_start c"
proof (cases j)
  case (JNumber n)
  from decimal_Cons [of n] obtain c cs where "decimal n = c # cs" "is_digit c" by blast
  then show ?thesis using JNumber is_digit_not_special [of c] by (simp add: value_start_def)
qed (simp_all add: value_start_def is_ws_def QuoteJSONString_def)

lemma value_p_string:
  "value_p (Suc n) (CHR 0x22 # cs) = map_option (apfst JString) (string_body cs)"
  by (simp add: skip_ws_simps)

lemma value_p_array_empty:
  "value_p (Suc n) (CHR ''['' # CHR '']'' # r) = Some (JArray [], r)"
  by (simp add: skip_ws_simps skip_ws_start is_ws_def)

lemma value_p_array:
  assumes "value_start d"
  shows "value_p (Suc n) (CHR ''['' # d # ds) = map_option (apfst JArray) (elements_p n (d # ds))"
  using assms by (simp add: value_start_def skip_ws_start is_ws_def)

lemma value_p_object_empty:
  "value_p (Suc n) (CHR ''{'' # CHR ''}'' # r) = Some (JObject [], r)"
  by (simp add: skip_ws_simps skip_ws_start is_ws_def)

lemma value_p_object:
  "value_p (Suc n) (CHR ''{'' # CHR 0x22 # ds)
     = map_option (apfst JObject) (members_p n (CHR 0x22 # ds))"
  by (simp add: skip_ws_simps skip_ws_start is_ws_def)

lemma value_p_number:
  assumes "is_digit c"
  shows "value_p (Suc n) (c # cs) = map_option (apfst JNumber) (number_p (c # cs))"
  using is_digit_not_special [OF assms] by (simp add: skip_ws_start)

lemma value_p_literals:
  "value_p (Suc n) (''null'' @ r) = Some (JNull, r)"
  "value_p (Suc n) (''true'' @ r) = Some (JBool True, r)"
  "value_p (Suc n) (''false'' @ r) = Some (JBool False, r)"
  by (simp_all add: skip_ws_start is_ws_def literal_def)

lemma elements_p_last:
  assumes "value_p n inp = Some (v, CHR '']'' # r)"
  shows "elements_p (Suc n) inp = Some ([v], r)"
  using assms by (simp add: skip_ws_simps)

lemma elements_p_more:
  assumes "value_p n inp = Some (v, CHR '','' # r)"
  shows "elements_p (Suc n) inp = map_option (apfst ((#) v)) (elements_p n r)"
  using assms by (simp add: skip_ws_simps)

lemma members_p_last:
  assumes "string_body cs = Some (k, CHR '':'' # ds)"
    and "value_p n ds = Some (v, CHR ''}'' # r)"
  shows "members_p (Suc n) (CHR 0x22 # cs) = Some ([(k, v)], r)"
  using assms by (simp add: skip_ws_simps)

lemma members_p_more:
  assumes "string_body cs = Some (k, CHR '':'' # ds)"
    and "value_p n ds = Some (v, CHR '','' # r)"
  shows "members_p (Suc n) (CHR 0x22 # cs) = map_option (apfst ((#) (k, v))) (members_p n r)"
  using assms by (simp add: skip_ws_simps)

lemma parsesD:
  "parses j \<Longrightarrow> delimited rest \<Longrightarrow> length (stringify j) < n \<Longrightarrow>
   value_p n (stringify j @ rest) = Some (j, rest)"
  by (simp add: parses_def)

lemma stringify_length: "0 < length (stringify j)"
  using stringify_Cons [of j] by auto

lemma elements_p_join:
  assumes "\<forall>x\<in>set xs. parses x" and "xs \<noteq> []"
    and "length (join_comma (map stringify xs)) + 1 < n"
  shows "elements_p n (join_comma (map stringify xs) @ CHR '']'' # rest) = Some (xs, rest)"
  using assms
proof (induction xs arbitrary: n)
  case Nil
  then show ?case by simp
next
  case (Cons x xs)
  from Cons.prems(3) obtain k where n: "n = Suc k" by (cases n) auto
  show ?case
  proof (cases xs)
    case Nil
    have "value_p k (stringify x @ CHR '']'' # rest) = Some (x, CHR '']'' # rest)"
      using Cons.prems Nil n by (intro parsesD) (simp_all add: delimited_simps)
    then have "elements_p (Suc k) (stringify x @ CHR '']'' # rest) = Some ([x], rest)"
      by (rule elements_p_last)
    with Nil n show ?thesis by simp
  next
    case (Cons y ys)
    let ?more = "join_comma (map stringify xs) @ CHR '']'' # rest"
    have tx: "join_comma (map stringify (x # xs)) @ CHR '']'' # rest
        = stringify x @ CHR '','' # ?more"
      using Cons by simp
    have len: "length (join_comma (map stringify (x # xs)))
        = length (stringify x) + 1 + length (join_comma (map stringify xs))"
      using Cons by simp
    have "value_p k (stringify x @ CHR '','' # ?more) = Some (x, CHR '','' # ?more)"
      using Cons.prems n len by (intro parsesD) (simp_all add: delimited_simps)
    then have "elements_p (Suc k) (stringify x @ CHR '','' # ?more)
        = map_option (apfst ((#) x)) (elements_p k ?more)"
      by (rule elements_p_more)
    moreover have "elements_p k ?more = Some (xs, rest)"
    proof (rule Cons.IH)
      show "\<forall>x\<in>set xs. parses x" using Cons.prems(1) by simp
      show "xs \<noteq> []" using Cons by simp
      show "length (join_comma (map stringify xs)) + 1 < k"
        using Cons.prems(3) n len stringify_length [of x] by simp
    qed
    ultimately show ?thesis using n tx by simp
  qed
qed

lemma member_text_eq:
  "member_text (k, v) @ r
     = CHR 0x22 # (concat (map escape_char k) @ CHR 0x22 # CHR '':'' # stringify v @ r)"
  by (simp add: member_text_def QuoteJSONString_def)

lemma member_text_length:
  "length (stringify v) + 3 \<le> length (member_text (k, v))"
  by (simp add: member_text_def QuoteJSONString_def)

lemma members_p_join:
  assumes "\<forall>kv\<in>set kvs. parses (snd kv)" and "kvs \<noteq> []"
    and "length (join_comma (map member_text kvs)) + 1 < n"
  shows "members_p n (join_comma (map member_text kvs) @ CHR ''}'' # rest) = Some (kvs, rest)"
  using assms
proof (induction kvs arbitrary: n)
  case Nil
  then show ?case by simp
next
  case (Cons kv kvs)
  obtain k v where kv: "kv = (k, v)" by (cases kv)
  from Cons.prems(3) obtain m where n: "n = Suc m" by (cases n) auto
  have pv: "parses v" using Cons.prems(1) kv by simp
  show ?case
  proof (cases kvs)
    case Nil
    have key: "string_body (concat (map escape_char k) @ CHR 0x22 # CHR '':'' # stringify v @ CHR ''}'' # rest)
        = Some (k, CHR '':'' # stringify v @ CHR ''}'' # rest)"
      by (rule string_body_quote)
    have "value_p m (stringify v @ CHR ''}'' # rest) = Some (v, CHR ''}'' # rest)"
      using pv Cons.prems(3) Nil n kv member_text_length [of v k]
      by (intro parsesD) (simp_all add: delimited_simps)
    with key have "members_p (Suc m)
        (CHR 0x22 # (concat (map escape_char k) @ CHR 0x22 # CHR '':'' # stringify v @ CHR ''}'' # rest))
        = Some ([(k, v)], rest)"
      by (rule members_p_last)
    then show ?thesis using Nil n kv by (simp add: member_text_eq)
  next
    case (Cons kv' kvs')
    let ?more = "join_comma (map member_text kvs) @ CHR ''}'' # rest"
    have tx: "join_comma (map member_text (kv # kvs)) @ CHR ''}'' # rest
        = member_text (k, v) @ CHR '','' # ?more"
      using Cons kv by simp
    have len: "length (join_comma (map member_text (kv # kvs)))
        = length (member_text (k, v)) + 1 + length (join_comma (map member_text kvs))"
      using Cons kv by simp
    have key: "string_body (concat (map escape_char k) @ CHR 0x22 # CHR '':'' # stringify v @ CHR '','' # ?more)
        = Some (k, CHR '':'' # stringify v @ CHR '','' # ?more)"
      by (rule string_body_quote)
    have "value_p m (stringify v @ CHR '','' # ?more) = Some (v, CHR '','' # ?more)"
      using pv Cons.prems(3) n len member_text_length [of v k]
      by (intro parsesD) (simp_all add: delimited_simps)
    with key have "members_p (Suc m)
        (CHR 0x22 # (concat (map escape_char k) @ CHR 0x22 # CHR '':'' # stringify v @ CHR '','' # ?more))
        = map_option (apfst ((#) (k, v))) (members_p m ?more)"
      by (rule members_p_more)
    moreover have "members_p m ?more = Some (kvs, rest)"
    proof (rule Cons.IH)
      show "\<forall>kv\<in>set kvs. parses (snd kv)" using Cons.prems(1) by simp
      show "kvs \<noteq> []" using Cons by simp
      show "length (join_comma (map member_text kvs)) + 1 < m"
        using Cons.prems(3) n len member_text_length [of v k] by simp
    qed
    ultimately show ?thesis using n tx kv by (simp add: member_text_eq)
  qed
qed

lemma stringify_object:
  "stringify (JObject kvs) = ''{'' @ join_comma (map member_text kvs) @ ''}''"
  by (simp add: member_text_def)

lemma join_comma_Cons:
  assumes "xs \<noteq> []" and "\<forall>x\<in>set xs. x \<noteq> []"
  shows "\<exists>c cs. join_comma xs = c # cs \<and> c = hd (hd xs)"
proof -
  from assms obtain x ys where xs: "xs = x # ys" by (cases xs) auto
  with assms(2) obtain c cs where x: "x = c # cs" by (cases x) auto
  show ?thesis using xs x by (cases ys) simp_all
qed

lemma parses_all: "parses j"
proof (induction j)
  case JNull
  show ?case
    unfolding parses_def
  proof (intro allI impI)
    fix n :: nat and rest
    assume "length (stringify JNull) < n"
    then obtain k where "n = Suc k" by (cases n) auto
    then show "value_p n (stringify JNull @ rest) = Some (JNull, rest)"
      using value_p_literals(1) [of k rest] by simp
  qed
next
  case (JBool b)
  show ?case
    unfolding parses_def
  proof (intro allI impI)
    fix n :: nat and rest
    assume "length (stringify (JBool b)) < n"
    then obtain k where "n = Suc k" by (cases n) auto
    then show "value_p n (stringify (JBool b) @ rest) = Some (JBool b, rest)"
      using value_p_literals(2) [of k rest] value_p_literals(3) [of k rest] by (cases b) simp_all
  qed
next
  case (JNumber m)
  show ?case
    unfolding parses_def
  proof (intro allI impI)
    fix n :: nat and rest
    assume d: "delimited rest" and "length (stringify (JNumber m)) < n"
    then obtain k where n: "n = Suc k" by (cases n) auto
    from decimal_Cons [of m] obtain c cs where c: "decimal m = c # cs" "is_digit c" by blast
    have "value_p (Suc k) (c # (cs @ rest)) = map_option (apfst JNumber) (number_p (c # (cs @ rest)))"
      using c(2) by (rule value_p_number)
    moreover have "number_p (decimal m @ rest) = Some (m, rest)"
      using d by (intro number_p_decimal delimited_number_end)
    ultimately show "value_p n (stringify (JNumber m) @ rest) = Some (JNumber m, rest)"
      using n c(1) by simp
  qed
next
  case (JString s)
  show ?case
    unfolding parses_def
  proof (intro allI impI)
    fix n :: nat and rest
    assume "length (stringify (JString s)) < n"
    then obtain k where n: "n = Suc k" by (cases n) auto
    have "value_p (Suc k) (CHR 0x22 # (concat (map escape_char s) @ CHR 0x22 # rest))
        = map_option (apfst JString) (string_body (concat (map escape_char s) @ CHR 0x22 # rest))"
      by (rule value_p_string)
    then show "value_p n (stringify (JString s) @ rest) = Some (JString s, rest)"
      using n by (simp add: QuoteJSONString_def string_body_quote)
  qed
next
  case (JArray xs)
  show ?case
    unfolding parses_def
  proof (intro allI impI)
    fix n :: nat and rest
    assume len: "length (stringify (JArray xs)) < n"
    then obtain k where n: "n = Suc k" by (cases n) auto
    show "value_p n (stringify (JArray xs) @ rest) = Some (JArray xs, rest)"
    proof (cases "xs = []")
      case True
      then show ?thesis using n value_p_array_empty [of k rest] by simp
    next
      case False
      have ne: "\<forall>t\<in>set (map stringify xs). t \<noteq> []"
        using stringify_length by auto
      from join_comma_Cons [of "map stringify xs"] False ne
      obtain d ds where j: "join_comma (map stringify xs) = d # ds"
          "d = hd (hd (map stringify xs))" by auto
      from False obtain x ys where xs: "xs = x # ys" by (cases xs) auto
      from stringify_Cons [of x] have "value_start d" using j(2) xs by auto
      then have "value_p (Suc k) (CHR ''['' # d # (ds @ CHR '']'' # rest))
          = map_option (apfst JArray) (elements_p k (d # (ds @ CHR '']'' # rest)))"
        by (rule value_p_array)
      moreover have "elements_p k (join_comma (map stringify xs) @ CHR '']'' # rest)
          = Some (xs, rest)"
        using JArray False len n by (intro elements_p_join) simp_all
      ultimately show ?thesis using n j(1) by simp
    qed
  qed
next
  case (JObject kvs)
  have ih: "\<forall>kv\<in>set kvs. parses (snd kv)"
    using JObject by (auto simp: snds.simps)
  show ?case
    unfolding parses_def
  proof (intro allI impI)
    fix n :: nat and rest
    assume len: "length (stringify (JObject kvs)) < n"
    then obtain k where n: "n = Suc k" by (cases n) auto
    show "value_p n (stringify (JObject kvs) @ rest) = Some (JObject kvs, rest)"
    proof (cases "kvs = []")
      case True
      then show ?thesis using n value_p_object_empty [of k rest] by simp
    next
      case False
      then obtain kv ys where kvs: "kvs = kv # ys" by (cases kvs) auto
      obtain key v where kv: "kv = (key, v)" by (cases kv)
      have "\<exists>ds. join_comma (map member_text kvs) = CHR 0x22 # ds"
        using kvs kv by (cases ys) (simp_all add: member_text_def QuoteJSONString_def)
      then obtain ds where j: "join_comma (map member_text kvs) = CHR 0x22 # ds" by blast
      have tx: "stringify (JObject kvs) @ rest = CHR ''{'' # CHR 0x22 # (ds @ CHR ''}'' # rest)"
        by (simp add: stringify_object j del: stringify.simps)
      have "members_p k (join_comma (map member_text kvs) @ CHR ''}'' # rest)
          = Some (kvs, rest)"
        using ih False len n by (intro members_p_join) (simp_all add: member_text_def)
      then have m: "members_p k (CHR 0x22 # (ds @ CHR ''}'' # rest)) = Some (kvs, rest)"
        by (simp add: j)
      have "value_p (Suc k) (CHR ''{'' # CHR 0x22 # (ds @ CHR ''}'' # rest))
          = map_option (apfst JObject) (members_p k (CHR 0x22 # (ds @ CHR ''}'' # rest)))"
        by (rule value_p_object)
      then show ?thesis by (simp only: n tx m) simp
    qed
  qed
qed

lemma parse_stringify: "parse (stringify j) = Some j"
proof -
  have "value_p (Suc (length (stringify j))) (stringify j @ []) = Some (j, [])"
    using parses_all [of j] by (intro parsesD) (simp_all add: delimited_def)
  then show ?thesis by (simp add: parse_def skip_ws_def)
qed

subsection \<open>Tasks and the envelope\<close>

lemma task_of_json_task_json: "task_of_json (task_json t) = Some t"
  by (cases t; cases "title t"; cases "description t")
     (simp_all add: task_of_json_def task_json_def string_member_def string_property_def)

lemma tasks_of_json_map: "tasks_of_json (map task_json tasks) = Some tasks"
  by (induction tasks) (simp_all add: task_of_json_task_json)

lemma state_of_json_state_json: "state_of_json (state_json tasks) = Some tasks"
  by (simp add: state_of_json_def state_json_def tasks_of_json_map)

section \<open>The claim about persistence\<close>

text \<open>
  Claim C8. Writing a task list to the storage and reading the storage back gives the
  same list: the same tasks, field for field, in the same order. The titles,
  descriptions, ids and statuses are arbitrary strings (quotes, backslashes and control
  characters included), and a title or description may be missing.
\<close>

theorem persist_round_trip: "rehydrate (setItem storage tasks) = tasks"
  by (simp add: rehydrate_def setItem_def parse_stringify state_of_json_state_json)

theorem persist_round_trip_witness:
  "stringify (state_json
      [\<lparr>task_id = ''a'', title = Some [CHR ''A'', CHR 0x22, CHR 0x0A], description = None,
        status = Status_backlog\<rparr>])
     = ''{'' @ [CHR 0x22] @ ''state'' @ [CHR 0x22] @ '':{'' @ [CHR 0x22] @ ''tasks'' @ [CHR 0x22]
       @ '':[{'' @ [CHR 0x22] @ ''id'' @ [CHR 0x22] @ '':'' @ [CHR 0x22] @ ''a'' @ [CHR 0x22]
       @ '','' @ [CHR 0x22] @ ''title'' @ [CHR 0x22] @ '':'' @ [CHR 0x22] @ ''A''
       @ [CHR 0x5C, CHR 0x22, CHR 0x5C] @ ''n'' @ [CHR 0x22]
       @ '','' @ [CHR 0x22] @ ''status'' @ [CHR 0x22] @ '':'' @ [CHR 0x22] @ ''Backlog''
       @ [CHR 0x22] @ ''}]},'' @ [CHR 0x22] @ ''version'' @ [CHR 0x22] @ '':0}''
   \<and> rehydrate (setItem Map.empty
      [\<lparr>task_id = ''a'', title = Some [CHR ''A'', CHR 0x22, CHR 0x0A], description = None,
        status = Status_backlog\<rparr>])
     = [\<lparr>task_id = ''a'', title = Some [CHR ''A'', CHR 0x22, CHR 0x0A], description = None,
        status = Status_backlog\<rparr>]"
  using persist_round_trip [of Map.empty
      "[\<lparr>task_id = ''a'', title = Some [CHR ''A'', CHR 0x22, CHR 0x0A], description = None,
         status = Status_backlog\<rparr>]"]
  by (simp add: state_json_def task_json_def string_member_def QuoteJSONString_def
      escape_char_def Status_backlog_def decimal_small digit_def)

end
